theory Spec2Isabelle
  imports Main
begin

section \<open>Testimonials carousel\<close>

text \<open>
  The class \<^verbatim>\<open>TestimonialsCarousel\<close> keeps three groups of data: \<^verbatim>\<open>this.config\<close>,
  \<^verbatim>\<open>this.state\<close> and the DOM nodes it found in its container. The model is one record
  with the three groups side by side. Of a DOM node only what the class writes is kept:
  the \<^verbatim>\<open>is-active\<close> class and the \<^verbatim>\<open>aria-current\<close> attribute of a slide or dot, the
  \<^verbatim>\<open>disabled\<close> property and \<^verbatim>\<open>aria-disabled\<close> attribute of a button, the inline
  \<^verbatim>\<open>transition\<close> and \<^verbatim>\<open>transform\<close> styles and the \<^verbatim>\<open>is-dragging\<close> class of the track,
  and the text of the live region. Console logging has no effect on any of them and is
  left out. Pixel coordinates are integers.

  \<^verbatim>\<open>goToSlide\<close> is a public method and JavaScript does not type its argument, so the
  slide index is a JavaScript value: an integer, \<^verbatim>\<open>NaN\<close> or \<^verbatim>\<open>undefined\<close> (what a call
  without argument passes). The operators the class applies to the index are written out
  with their JavaScript meaning: \<^verbatim>\<open>===\<close> is false when either side is \<^verbatim>\<open>NaN\<close>; the
  comparisons \<^verbatim>\<open><\<close>, \<^verbatim>\<open>>\<close>, \<^verbatim>\<open>>=\<close> with a number are false when the other side is
  \<^verbatim>\<open>NaN\<close> or \<^verbatim>\<open>undefined\<close> (which converts to \<^verbatim>\<open>NaN\<close>); and arithmetic on either gives
  \<^verbatim>\<open>NaN\<close>. Fractions, strings and other values are not part of the model.
\<close>

datatype js_value = Number int | NaN | Undefined

fun strict_eq :: "js_value \<Rightarrow> js_value \<Rightarrow> bool" where
  "strict_eq (Number a) (Number b) = (a = b)"
| "strict_eq Undefined Undefined = True"
| "strict_eq _ _ = False"

fun js_less :: "js_value \<Rightarrow> int \<Rightarrow> bool" where
  "js_less (Number a) b = (a < b)"
| "js_less _ b = False"

fun js_greater :: "js_value \<Rightarrow> int \<Rightarrow> bool" where
  "js_greater (Number a) b = (a > b)"
| "js_greater _ b = False"

fun js_greater_eq :: "js_value \<Rightarrow> int \<Rightarrow> bool" where
  "js_greater_eq (Number a) b = (a \<ge> b)"
| "js_greater_eq _ b = False"

fun js_plus :: "js_value \<Rightarrow> int \<Rightarrow> js_value" where
  "js_plus (Number a) b = Number (a + b)"
| "js_plus _ b = NaN"

fun js_times :: "js_value \<Rightarrow> int \<Rightarrow> js_value" where
  "js_times (Number a) b = Number (a * b)"
| "js_times _ b = NaN"

fun js_negate :: "js_value \<Rightarrow> js_value" where
  "js_negate (Number a) = Number (- a)"
| "js_negate _ = NaN"

record elem =
  is_active :: bool
  aria_current :: bool

record nav_button =
  disabled :: bool
  aria_disabled :: bool

datatype transition_style = Unset | NoTransition | Transform nat

record carousel =
  \<comment> \<open>\<^verbatim>\<open>this.config\<close>\<close>
  autoPlayInterval :: nat
  autoPlayEnabled :: bool
  transitionDuration :: nat
  swipeThreshold :: int
  pauseOnHover :: bool
  pauseOnFocus :: bool
  enableKeyboard :: bool
  enableTouch :: bool
  loop :: bool
  \<comment> \<open>DOM elements\<close>
  slides :: "elem list"
  dots :: "elem list"
  prevButton :: "nav_button option"
  nextButton :: "nav_button option"
  playPauseButton :: "bool option"
  track_transition :: transition_style
  track_transform :: "js_value option"
  track_dragging :: bool
  liveRegion :: "(js_value \<times> nat) option"
  slideWidth :: int
  \<comment> \<open>\<^verbatim>\<open>this.state\<close>\<close>
  currentIndex :: js_value
  isPlaying :: bool
  isDragging :: bool
  isTransitioning :: bool
  startX :: int
  currentX :: int
  translateX :: js_value
  autoPlayTimer :: bool
  resizeObserver :: bool
  intersectionObserver :: bool

text \<open>
  \<^verbatim>\<open>slideWidth\<close> stands for \<^verbatim>\<open>this.slides[0].offsetWidth\<close>, a layout value the browser
  supplies; the constructor refuses a container without slides, so the read is defined.
  \<^verbatim>\<open>playPauseButton\<close> holds the button's \<^verbatim>\<open>data-state\<close> (playing or not) when the
  button exists. \<^verbatim>\<open>liveRegion\<close> holds the two numbers of the announcement
  ``Showing testimonial a of b''. The timer and the two observers are present or absent.
\<close>

definition mark_current :: "js_value \<Rightarrow> elem list \<Rightarrow> elem list" where
  "mark_current cur xs =
     map (\<lambda>(index, e).
            if strict_eq (Number (int index)) cur then e\<lparr>is_active := True, aria_current := True\<rparr>
            else e\<lparr>is_active := False, aria_current := False\<rparr>)
         (enumerate 0 xs)"

definition updateSlidePosition :: "bool \<Rightarrow> carousel \<Rightarrow> carousel" where
  "updateSlidePosition animate c =
     (let tx = js_negate (js_times (currentIndex c) (slideWidth c));
          c1 = c\<lparr>track_transition :=
                   (if animate then Transform (transitionDuration c) else NoTransition)\<rparr>;
          c2 = c1\<lparr>track_transform := Some tx\<rparr>
      in if \<not> animate then c2\<lparr>isTransitioning := False\<rparr> else c2)"

definition announceSlideChange :: "carousel \<Rightarrow> carousel" where
  "announceSlideChange c =
     c\<lparr>liveRegion := Some (js_plus (currentIndex c) 1, length (slides c))\<rparr>"

definition updateUI :: "carousel \<Rightarrow> carousel" where
  "updateUI c =
     (let c1 = c\<lparr>slides := mark_current (currentIndex c) (slides c)\<rparr>;
          c2 = c1\<lparr>prevButton :=
                    map_option (\<lambda>b. if loop c \<or> js_greater (currentIndex c) 0
                                     then b\<lparr>disabled := False, aria_disabled := False\<rparr>
                                     else b\<lparr>disabled := True, aria_disabled := True\<rparr>)
                               (prevButton c)\<rparr>;
          c3 = c2\<lparr>nextButton :=
                    map_option (\<lambda>b. if loop c \<or> js_less (currentIndex c) (int (length (slides c)) - 1)
                                     then b\<lparr>disabled := False, aria_disabled := False\<rparr>
                                     else b\<lparr>disabled := True, aria_disabled := True\<rparr>)
                               (nextButton c)\<rparr>;
          c4 = c3\<lparr>dots := mark_current (currentIndex c) (dots c)\<rparr>
      in announceSlideChange c4)"

definition goToSlide :: "js_value \<Rightarrow> carousel \<Rightarrow> carousel" where
  "goToSlide index c =
     (if strict_eq index (currentIndex c) \<or> isTransitioning c then c
      else if js_less index 0 \<or> js_greater_eq index (int (length (slides c))) then c
      else updateUI (updateSlidePosition True
             (c\<lparr>currentIndex := index, isTransitioning := True\<rparr>)))"

definition goToPrevious :: "carousel \<Rightarrow> carousel" where
  "goToPrevious c =
     (if isTransitioning c then c
      else let newIndex = js_plus (currentIndex c) (- 1);
               newIndex = (if js_less newIndex 0
                           then Number (if loop c then int (length (slides c)) - 1 else 0)
                           else newIndex)
           in goToSlide newIndex c)"

definition goToNext :: "carousel \<Rightarrow> carousel" where
  "goToNext c =
     (if isTransitioning c then c
      else let newIndex = js_plus (currentIndex c) 1;
               newIndex = (if js_greater_eq newIndex (int (length (slides c)))
                           then Number (if loop c then 0 else int (length (slides c)) - 1)
                           else newIndex)
           in goToSlide newIndex c)"

subsection \<open>Auto-play\<close>

definition startAutoPlay :: "carousel \<Rightarrow> carousel" where
  "startAutoPlay c =
     (if \<not> autoPlayEnabled c \<or> autoPlayTimer c then c else c\<lparr>autoPlayTimer := True\<rparr>)"

definition stopAutoPlay :: "carousel \<Rightarrow> carousel" where
  "stopAutoPlay c = (if autoPlayTimer c then c\<lparr>autoPlayTimer := False\<rparr> else c)"

definition resetAutoPlay :: "carousel \<Rightarrow> carousel" where
  "resetAutoPlay c = (if isPlaying c then startAutoPlay (stopAutoPlay c) else c)"

definition updatePlayPauseButton :: "carousel \<Rightarrow> carousel" where
  "updatePlayPauseButton c =
     (case playPauseButton c of
        None \<Rightarrow> c
      | Some _ \<Rightarrow> c\<lparr>playPauseButton := Some (isPlaying c)\<rparr>)"

definition play :: "carousel \<Rightarrow> carousel" where
  "play c = updatePlayPauseButton (startAutoPlay (c\<lparr>isPlaying := True\<rparr>))"

definition pause :: "carousel \<Rightarrow> carousel" where
  "pause c = updatePlayPauseButton (stopAutoPlay (c\<lparr>isPlaying := False\<rparr>))"

text \<open>The \<^verbatim>\<open>setInterval\<close> callback; it runs only while the timer exists.\<close>

definition autoPlayTick :: "carousel \<Rightarrow> carousel" where
  "autoPlayTick c = (if autoPlayTimer c then goToNext c else c)"

subsection \<open>Event handlers\<close>

definition handlePrevClick :: "carousel \<Rightarrow> carousel" where
  "handlePrevClick c = resetAutoPlay (goToPrevious c)"

definition handleNextClick :: "carousel \<Rightarrow> carousel" where
  "handleNextClick c = resetAutoPlay (goToNext c)"

definition handleDotClick :: "nat \<Rightarrow> carousel \<Rightarrow> carousel" where
  "handleDotClick index c = resetAutoPlay (goToSlide (Number (int index)) c)"

definition handlePlayPauseClick :: "carousel \<Rightarrow> carousel" where
  "handlePlayPauseClick c = (if isPlaying c then pause c else play c)"

datatype key = ArrowLeft | ArrowRight | Home | End | Space | OtherKey

text \<open>The second argument of \<^verbatim>\<open>handleKeyDown\<close> says whether the event's target is the
  container or inside it, which the space key tests.\<close>

fun handleKeyDown :: "key \<Rightarrow> bool \<Rightarrow> carousel \<Rightarrow> carousel" where
  "handleKeyDown ArrowLeft inside c = resetAutoPlay (goToPrevious c)"
| "handleKeyDown ArrowRight inside c = resetAutoPlay (goToNext c)"
| "handleKeyDown Home inside c = resetAutoPlay (goToSlide (Number 0) c)"
| "handleKeyDown End inside c = resetAutoPlay (goToSlide (Number (int (length (slides c)) - 1)) c)"
| "handleKeyDown Space inside c = (if inside then handlePlayPauseClick c else c)"
| "handleKeyDown OtherKey inside c = c"

definition handleTouchStart :: "int \<Rightarrow> carousel \<Rightarrow> carousel" where
  "handleTouchStart clientX c =
     (if isTransitioning c then c
      else stopAutoPlay
             (c\<lparr>isDragging := True, startX := clientX, currentX := clientX,
                track_dragging := True\<rparr>))"

definition handleTouchMove :: "int \<Rightarrow> carousel \<Rightarrow> carousel" where
  "handleTouchMove clientX c =
     (if \<not> isDragging c then c
      else let c1 = c\<lparr>currentX := clientX\<rparr>;
               deltaX = currentX c1 - startX c1;
               currentTranslate = js_negate (js_times (currentIndex c1) (slideWidth c1));
               c2 = c1\<lparr>translateX := js_plus currentTranslate deltaX\<rparr>
           in c2\<lparr>track_transform := Some (translateX c2)\<rparr>)"

definition handleTouchEnd :: "carousel \<Rightarrow> carousel" where
  "handleTouchEnd c =
     (if \<not> isDragging c then c
      else let c1 = c\<lparr>isDragging := False, track_dragging := False\<rparr>;
               deltaX = currentX c1 - startX c1;
               threshold = swipeThreshold c1;
               c2 = (if \<bar>deltaX\<bar> > threshold
                     then (if deltaX > 0 then goToPrevious c1 else goToNext c1)
                     else updateSlidePosition True c1)
           in resetAutoPlay c2)"

definition handleMouseEnter :: "carousel \<Rightarrow> carousel" where
  "handleMouseEnter c = (if pauseOnHover c \<and> isPlaying c then stopAutoPlay c else c)"

definition handleMouseLeave :: "carousel \<Rightarrow> carousel" where
  "handleMouseLeave c = (if pauseOnHover c \<and> isPlaying c then startAutoPlay c else c)"

definition handleFocus :: "carousel \<Rightarrow> carousel" where
  "handleFocus c = (if pauseOnFocus c \<and> isPlaying c then stopAutoPlay c else c)"

text \<open>The argument of \<^verbatim>\<open>handleBlur\<close> is \<^verbatim>\<open>container.contains(document.activeElement)\<close>.\<close>

definition handleBlur :: "bool \<Rightarrow> carousel \<Rightarrow> carousel" where
  "handleBlur focusInside c =
     (if pauseOnFocus c \<and> isPlaying c \<and> \<not> focusInside then startAutoPlay c else c)"

definition handleTransitionEnd :: "carousel \<Rightarrow> carousel" where
  "handleTransitionEnd c = c\<lparr>isTransitioning := False\<rparr>"

text \<open>The argument of \<^verbatim>\<open>handleVisibilityChange\<close> is \<^verbatim>\<open>document.hidden\<close>.\<close>

definition handleVisibilityChange :: "bool \<Rightarrow> carousel \<Rightarrow> carousel" where
  "handleVisibilityChange hidden c =
     (if hidden then stopAutoPlay c
      else if isPlaying c then startAutoPlay c else c)"

text \<open>The two observer callbacks of \<^verbatim>\<open>setupObservers\<close>: one entry per observed change,
  each with its \<^verbatim>\<open>isIntersecting\<close> flag; and the resize callback.\<close>

fun onIntersection :: "bool list \<Rightarrow> carousel \<Rightarrow> carousel" where
  "onIntersection [] c = c"
| "onIntersection (isIntersecting # entries) c =
     onIntersection entries
       (if isIntersecting \<and> isPlaying c then startAutoPlay c else stopAutoPlay c)"

definition onResize :: "carousel \<Rightarrow> carousel" where
  "onResize c = updateSlidePosition False c"

subsection \<open>Everything that can happen to a carousel\<close>

text \<open>
  An event is a listener firing, a timer or observer callback, or a call of a public
  method. \<^verbatim>\<open>attachEventListeners\<close> registers a listener only when its button exists or
  its option is on, and a dot's listener only for a dot that exists; \<open>dispatch\<close> keeps
  these conditions. \<^verbatim>\<open>destroy\<close>, which drops the slides and ends the carousel's life, is
  not among the events.
\<close>

datatype carousel_event =
    PrevClick | NextClick | DotClick nat | PlayPauseClick
  | KeyDown key bool
  | TouchStart int | TouchMove int | TouchEnd
  | MouseEnter | MouseLeave | FocusIn | FocusOut bool
  | TransitionEnd | VisibilityChange bool
  | Intersection "bool list" | Resize | AutoPlayTick
  | GoToSlide js_value | GoToNext | GoToPrevious | Play | Pause

fun dispatch :: "carousel_event \<Rightarrow> carousel \<Rightarrow> carousel" where
  "dispatch PrevClick c = (if prevButton c \<noteq> None then handlePrevClick c else c)"
| "dispatch NextClick c = (if nextButton c \<noteq> None then handleNextClick c else c)"
| "dispatch (DotClick k) c = (if k < length (dots c) then handleDotClick k c else c)"
| "dispatch PlayPauseClick c =
     (if playPauseButton c \<noteq> None then handlePlayPauseClick c else c)"
| "dispatch (KeyDown k inside) c = (if enableKeyboard c then handleKeyDown k inside c else c)"
| "dispatch (TouchStart x) c = (if enableTouch c then handleTouchStart x c else c)"
| "dispatch (TouchMove x) c = (if enableTouch c then handleTouchMove x c else c)"
| "dispatch TouchEnd c = (if enableTouch c then handleTouchEnd c else c)"
| "dispatch MouseEnter c = (if pauseOnHover c then handleMouseEnter c else c)"
| "dispatch MouseLeave c = (if pauseOnHover c then handleMouseLeave c else c)"
| "dispatch FocusIn c = (if pauseOnFocus c then handleFocus c else c)"
| "dispatch (FocusOut inside) c = (if pauseOnFocus c then handleBlur inside c else c)"
| "dispatch TransitionEnd c = handleTransitionEnd c"
| "dispatch (VisibilityChange hidden) c = handleVisibilityChange hidden c"
| "dispatch (Intersection entries) c =
     (if intersectionObserver c then onIntersection entries c else c)"
| "dispatch Resize c = (if resizeObserver c then onResize c else c)"
| "dispatch AutoPlayTick c = autoPlayTick c"
| "dispatch (GoToSlide i) c = goToSlide i c"
| "dispatch GoToNext c = goToNext c"
| "dispatch GoToPrevious c = goToPrevious c"
| "dispatch Play c = play c"
| "dispatch Pause c = pause c"

fun run :: "carousel_event list \<Rightarrow> carousel \<Rightarrow> carousel" where
  "run [] c = c"
| "run (e # es) c = run es (dispatch e c)"

subsection \<open>Construction\<close>

text \<open>
  The constructor takes the container's markup: whether the track exists, the slides and
  dots with the classes and attributes the page gave them, and the buttons. It throws when
  the track or the slides are missing. \<^verbatim>\<open>setupAccessibility\<close> adds the active class and
  \<^verbatim>\<open>aria-current\<close> to the slide at the current index and only removes \<^verbatim>\<open>aria-current\<close>
  from the others; \<^verbatim>\<open>updateUI\<close> then sets both on every slide. The two flags at the end
  say whether the browser has \<^verbatim>\<open>IntersectionObserver\<close> and \<^verbatim>\<open>ResizeObserver\<close>.
\<close>

record markup =
  has_track :: bool
  m_slides :: "elem list"
  m_dots :: "elem list"
  m_prevButton :: "nav_button option"
  m_nextButton :: "nav_button option"
  m_playPauseButton :: "bool option"
  m_liveRegion :: "(js_value \<times> nat) option"
  m_slideWidth :: int

record options =
  o_autoPlayInterval :: nat
  o_autoPlayEnabled :: bool
  o_transitionDuration :: nat
  o_swipeThreshold :: int
  o_pauseOnHover :: bool
  o_pauseOnFocus :: bool
  o_enableKeyboard :: bool
  o_enableTouch :: bool
  o_loop :: bool

datatype carousel_error = TrackNotFound | NoSlidesFound

definition setupAccessibility :: "carousel \<Rightarrow> carousel" where
  "setupAccessibility c =
     updatePlayPauseButton
       (c\<lparr>slides :=
            map (\<lambda>(index, e).
                   if strict_eq (Number (int index)) (currentIndex c)
                   then e\<lparr>is_active := True, aria_current := True\<rparr>
                   else e\<lparr>aria_current := False\<rparr>)
                (enumerate 0 (slides c))\<rparr>)"

definition construct :: "options \<Rightarrow> markup \<Rightarrow> bool \<Rightarrow> bool \<Rightarrow> carousel_error + carousel" where
  "construct opts m hasIO hasRO =
     (if \<not> has_track m then Inl TrackNotFound
      else if length (m_slides m) = 0 then Inl NoSlidesFound
      else
        let c = \<lparr>autoPlayInterval = o_autoPlayInterval opts,
                 autoPlayEnabled = o_autoPlayEnabled opts,
                 transitionDuration = o_transitionDuration opts,
                 swipeThreshold = o_swipeThreshold opts,
                 pauseOnHover = o_pauseOnHover opts,
                 pauseOnFocus = o_pauseOnFocus opts,
                 enableKeyboard = o_enableKeyboard opts,
                 enableTouch = o_enableTouch opts,
                 loop = o_loop opts,
                 slides = m_slides m,
                 dots = m_dots m,
                 prevButton = m_prevButton m,
                 nextButton = m_nextButton m,
                 playPauseButton = m_playPauseButton m,
                 track_transition = Unset,
                 track_transform = None,
                 track_dragging = False,
                 liveRegion = m_liveRegion m,
                 slideWidth = m_slideWidth m,
                 currentIndex = Number 0,
                 isPlaying = o_autoPlayEnabled opts,
                 isDragging = False,
                 isTransitioning = False,
                 startX = 0,
                 currentX = 0,
                 translateX = Number 0,
                 autoPlayTimer = False,
                 resizeObserver = hasRO,
                 intersectionObserver = hasIO\<rparr>;
            c1 = updateUI (setupAccessibility c)
        in Inr (if isPlaying c1 then startAutoPlay c1 else c1))"

text \<open>The options \<^verbatim>\<open>initTestimonialsCarousels\<close> passes for every carousel of the page.\<close>

definition page_options :: options where
  "page_options =
     \<lparr>o_autoPlayInterval = 5000, o_autoPlayEnabled = True, o_transitionDuration = 500,
      o_swipeThreshold = 50, o_pauseOnHover = True, o_pauseOnFocus = True,
      o_enableKeyboard = True, o_enableTouch = True, o_loop = True\<rparr>"

text \<open>A container with three slides, three dots and both navigation buttons, none of them
  marked by the page, as a concrete carousel to evaluate on.\<close>

definition three_slides :: markup where
  "three_slides =
     \<lparr>has_track = True,
      m_slides = replicate 3 \<lparr>is_active = False, aria_current = False\<rparr>,
      m_dots = replicate 3 \<lparr>is_active = False, aria_current = False\<rparr>,
      m_prevButton = Some \<lparr>disabled = False, aria_disabled = False\<rparr>,
      m_nextButton = Some \<lparr>disabled = False, aria_disabled = False\<rparr>,
      m_playPauseButton = None,
      m_liveRegion = None,
      m_slideWidth = 320\<rparr>"

definition carousel3 :: carousel where
  "carousel3 = (case construct page_options three_slides True True of Inr c \<Rightarrow> c)"

text \<open>The invariant of the slide index, \<^verbatim>\<open>0 <= currentIndex && currentIndex < slides.length\<close>,
  for stating that an event keeps it; and the events that pass \<^verbatim>\<open>goToSlide\<close> an
  integer, if they call it at all.\<close>

definition index_in_range :: "carousel \<Rightarrow> bool" where
  "index_in_range c \<longleftrightarrow>
     js_greater_eq (currentIndex c) 0 \<and> js_less (currentIndex c) (int (length (slides c)))"

fun integer_call :: "carousel_event \<Rightarrow> bool" where
  "integer_call (GoToSlide (Number i)) = True"
| "integer_call (GoToSlide _) = False"
| "integer_call _ = True"

section \<open>Analytics client\<close>

text \<open>
  The module \<^verbatim>\<open>analytics.js\<close> keeps its \<^verbatim>\<open>state\<close> object and acts on the page: it pushes
  calls on \<^verbatim>\<open>window.dataLayer\<close>, sends beacons, reads and writes one item of
  \<^verbatim>\<open>localStorage\<close>, appends script elements and sets timers. The model keeps all of it in
  one record, the module's state first. Times are milliseconds as integers; \<open>clock\<close> is
  what \<^verbatim>\<open>new Date()\<close> returns. Console logging is left out. The listeners that
  \<^verbatim>\<open>setupEventListeners\<close> registers do nothing but call \<^verbatim>\<open>trackEvent\<close>, so a listener
  firing is a call of \<^verbatim>\<open>trackEvent\<close>.

  \<^verbatim>\<open>trackEvent\<close> writes the timestamp on the parameter object it is given and queues or
  sends that object. Each listener passes an object of its own, and the model takes an
  event's parameters as a value. A caller of the public \<^verbatim>\<open>trackEvent\<close> who passes one
  object twice shares it between two entries, and the timestamp of the later call then
  shows in both; names and payloads are not affected, and neither is the timestamp of an
  entry right after \<^verbatim>\<open>trackEvent\<close> was called on it. The results on what is queued and
  sent compare events by name and payload (\<open>unstamp\<close>), or state the timestamp of entries
  that were all just written.
\<close>

record analytics_config =
  consentExpiryDays :: int
  loadTimeout :: nat
  retryAttempts :: nat
  retryDelay :: nat

definition CONFIG :: analytics_config where
  "CONFIG = \<lparr>consentExpiryDays = 365, loadTimeout = 5000, retryAttempts = 3, retryDelay = 1000\<rparr>"

text \<open>The parameters of an event: what the caller passed, and the \<^verbatim>\<open>timestamp\<close> property
  that \<^verbatim>\<open>trackEvent\<close> writes.\<close>

record event_params =
  payload :: "(string \<times> string) list"
  timestamp :: "int option"

record queued =
  eventName :: string
  eventParams :: event_params

datatype gtag_call =
    ConsentDefault bool
  | Js int
  | Config
  | ConsentUpdate bool
  | Event string event_params

text \<open>
  The stored item, as \<^verbatim>\<open>getStoredConsent\<close> sees it: text on which \<^verbatim>\<open>JSON.parse\<close> or
  the property reads throw, or a value with its \<^verbatim>\<open>consent\<close> property (is it the value
  \<^verbatim>\<open>true\<close>) and its \<^verbatim>\<open>expiry\<close> as a date (\<open>None\<close> for an invalid date). The storage
  itself may refuse every access, which the code catches.
\<close>

datatype stored = Unparsable | ConsentRecord bool "int option"

datatype local_storage = Unavailable | Stored "stored option"

datatype script_status = Pending | Loaded | Failed

record analytics =
  \<comment> \<open>\<^verbatim>\<open>state\<close>\<close>
  initialized :: bool
  consentGiven :: bool
  blocked :: bool
  loadAttempts :: nat
  eventQueue :: "queued list"
  \<comment> \<open>the page\<close>
  clock :: int
  dataLayer :: "gtag_call list option"
  hasSendBeacon :: bool
  beacons :: "queued list"
  localStorage :: local_storage
  scripts :: "script_status list"
  loadTimeouts :: "bool list"
  retryTimers :: "nat list"

text \<open>
  \<open>dataLayer\<close> is \<open>None\<close> while \<^verbatim>\<open>window.dataLayer\<close> is undefined. \<open>scripts\<close> holds one
  entry for each script element appended to the head, in order; \<open>loadTimeouts\<close> says for
  each of them whether its load timeout is still pending; \<open>retryTimers\<close> holds the delay
  of every pending retry timer.

  \<^verbatim>\<open>gtag\<close> pushes on the data layer and throws a TypeError when there is none.
\<close>

definition gtag :: "gtag_call \<Rightarrow> analytics \<Rightarrow> analytics option" where
  "gtag call w =
     (case dataLayer w of
        None \<Rightarrow> None
      | Some dl \<Rightarrow> Some (w\<lparr>dataLayer := Some (dl @ [call])\<rparr>))"

definition trackEvent :: "string \<Rightarrow> event_params \<Rightarrow> bool \<Rightarrow> analytics \<Rightarrow> analytics" where
  "trackEvent name ps immediate w =
     (if name = [] then w
      else
        let ps = ps\<lparr>timestamp := Some (clock w)\<rparr> in
        if \<not> consentGiven w \<or> blocked w
        then w\<lparr>eventQueue := eventQueue w @ [\<lparr>eventName = name, eventParams = ps\<rparr>]\<rparr>
        else if immediate \<and> hasSendBeacon w
        then w\<lparr>beacons := beacons w @ [\<lparr>eventName = name, eventParams = ps\<rparr>]\<rparr>
        else (case gtag (Event name ps) w of Some w' \<Rightarrow> w' | None \<Rightarrow> w))"

text \<open>\<^verbatim>\<open>processQueuedEvents\<close> copies the queue, empties it and calls \<^verbatim>\<open>trackEvent\<close> on each
  copied item, without the third argument; \<open>forEach_item\<close> is that loop.\<close>

fun forEach_item :: "queued list \<Rightarrow> analytics \<Rightarrow> analytics" where
  "forEach_item [] w = w"
| "forEach_item (item # queue) w =
     forEach_item queue (trackEvent (eventName item) (eventParams item) False w)"

definition processQueuedEvents :: "analytics \<Rightarrow> analytics" where
  "processQueuedEvents w =
     (if length (eventQueue w) = 0 then w
      else
        let queue = eventQueue w;
            w1 = w\<lparr>eventQueue := []\<rparr>
        in forEach_item queue w1)"

definition loadGtagScript :: "analytics_config \<Rightarrow> analytics \<Rightarrow> analytics" where
  "loadGtagScript cfg w =
     (if loadAttempts w \<ge> retryAttempts cfg
      then processQueuedEvents (w\<lparr>blocked := True\<rparr>)
      else w\<lparr>loadAttempts := loadAttempts w + 1,
             scripts := scripts w @ [Pending],
             loadTimeouts := loadTimeouts w @ [True]\<rparr>)"

text \<open>
  The three closures \<^verbatim>\<open>loadGtagScript\<close> attaches to a script. None of them reads
  anything of its own script but the timeout identifier, so the error handler takes no
  script, and the load handler and the timeout handler take its position in \<open>scripts\<close>.
  The load handler is the wrapper that clears the timeout and then runs the original.
\<close>

definition script_onerror :: "analytics_config \<Rightarrow> analytics \<Rightarrow> analytics" where
  "script_onerror cfg w =
     (if loadAttempts w < retryAttempts cfg
      then w\<lparr>retryTimers := retryTimers w @ [retryDelay cfg * loadAttempts w]\<rparr>
      else processQueuedEvents (w\<lparr>blocked := True\<rparr>))"

definition script_onload :: "nat \<Rightarrow> analytics \<Rightarrow> analytics" where
  "script_onload i w =
     processQueuedEvents
       (w\<lparr>loadTimeouts := (loadTimeouts w)[i := False], blocked := False\<rparr>)"

definition load_timeout :: "analytics_config \<Rightarrow> analytics \<Rightarrow> analytics" where
  "load_timeout cfg w =
     (if \<not> blocked w \<and> loadAttempts w < retryAttempts cfg then script_onerror cfg w else w)"

subsection \<open>Consent\<close>

definition getStoredConsent :: "analytics \<Rightarrow> bool option \<times> analytics" where
  "getStoredConsent w =
     (case localStorage w of
        Unavailable \<Rightarrow> (None, w)
      | Stored None \<Rightarrow> (None, w)
      | Stored (Some Unparsable) \<Rightarrow> (None, w)
      | Stored (Some (ConsentRecord consent expiry)) \<Rightarrow>
          if (case expiry of None \<Rightarrow> False | Some expiryDate \<Rightarrow> expiryDate > clock w)
          then (Some consent, w)
          else (None, w\<lparr>localStorage := Stored None\<rparr>))"

text \<open>\<^verbatim>\<open>storeConsent\<close> moves the date \<^verbatim>\<open>consentExpiryDays\<close> calendar days ahead; the
  model adds that many days of 86400000 milliseconds, which differs by an hour when the
  two dates lie on different sides of a daylight-saving change. No result below depends
  on the expiry that \<^verbatim>\<open>storeConsent\<close> writes.\<close>

definition storeConsent :: "analytics_config \<Rightarrow> bool \<Rightarrow> analytics \<Rightarrow> analytics" where
  "storeConsent cfg granted w =
     (case localStorage w of
        Unavailable \<Rightarrow> w
      | Stored _ \<Rightarrow>
          w\<lparr>localStorage :=
               Stored (Some (ConsentRecord granted
                               (Some (clock w + consentExpiryDays cfg * 86400000))))\<rparr>)"

definition shouldLoadByDefault :: bool where
  "shouldLoadByDefault = False"

text \<open>\<^verbatim>\<open>initializeDataLayer\<close> creates the data layer when the page has none, so its three
  \<^verbatim>\<open>gtag\<close> calls cannot throw.\<close>

definition initializeDataLayer :: "analytics \<Rightarrow> analytics" where
  "initializeDataLayer w =
     (let dl = (case dataLayer w of None \<Rightarrow> [] | Some dl \<Rightarrow> dl)
      in w\<lparr>dataLayer := Some (dl @ [ConsentDefault (consentGiven w), Js (clock w), Config])\<rparr>)"

definition init :: "analytics_config \<Rightarrow> analytics \<Rightarrow> analytics" where
  "init cfg w =
     (if initialized w then w
      else
        let (storedConsent, w1) = getStoredConsent w;
            w2 = (case storedConsent of None \<Rightarrow> w1 | Some c \<Rightarrow> w1\<lparr>consentGiven := c\<rparr>);
            w3 = initializeDataLayer w2;
            w4 = (if consentGiven w3 \<or> shouldLoadByDefault then loadGtagScript cfg w3 else w3)
        in w4\<lparr>initialized := True\<rparr>)"

text \<open>
  \<^verbatim>\<open>updateConsent\<close> calls \<^verbatim>\<open>gtag\<close> outside any \<^verbatim>\<open>try\<close>: without a data layer the
  TypeError leaves the function after the consent was set and stored. The result is the
  state the call leaves behind, with the error when it threw.
\<close>

datatype js_error = TypeError

definition updateConsent ::
  "analytics_config \<Rightarrow> bool \<Rightarrow> analytics \<Rightarrow> js_error option \<times> analytics" where
  "updateConsent cfg granted w =
     (let w1 = storeConsent cfg granted (w\<lparr>consentGiven := granted\<rparr>) in
      case gtag (ConsentUpdate granted) w1 of
        None \<Rightarrow> (Some TypeError, w1)
      | Some w2 \<Rightarrow>
          let w3 = (if granted \<and> \<not> blocked w2 \<and> loadAttempts w2 = 0
                    then loadGtagScript cfg w2 else w2);
              w4 = (if granted then processQueuedEvents w3 else w3)
          in (None, w4))"

subsection \<open>Everything that can happen to the client\<close>

text \<open>
  An event is a call of the public API, the clock moving, or the browser running a
  callback: a script loads or fails (once, while it is pending), a load timeout fires
  (once, unless cleared), a retry timer fires. \<open>step\<close> is \<open>None\<close> for a callback that
  cannot run in the given state.
\<close>

datatype analytics_event =
    Init
  | TrackEvent string event_params bool
  | UpdateConsent bool
  | Advance int
  | ScriptLoaded nat
  | ScriptFailed nat
  | LoadTimeout nat
  | RetryTimer nat

fun step :: "analytics_config \<Rightarrow> analytics_event \<Rightarrow> analytics \<Rightarrow> analytics option" where
  "step cfg Init w = Some (init cfg w)"
| "step cfg (TrackEvent name ps immediate) w = Some (trackEvent name ps immediate w)"
| "step cfg (UpdateConsent granted) w = Some (snd (updateConsent cfg granted w))"
| "step cfg (Advance t) w = Some (w\<lparr>clock := t\<rparr>)"
| "step cfg (ScriptLoaded i) w =
     (if i < length (scripts w) \<and> scripts w ! i = Pending
      then Some (script_onload i (w\<lparr>scripts := (scripts w)[i := Loaded]\<rparr>))
      else None)"
| "step cfg (ScriptFailed i) w =
     (if i < length (scripts w) \<and> scripts w ! i = Pending
      then Some (script_onerror cfg (w\<lparr>scripts := (scripts w)[i := Failed]\<rparr>))
      else None)"
| "step cfg (LoadTimeout i) w =
     (if i < length (loadTimeouts w) \<and> loadTimeouts w ! i
      then Some (load_timeout cfg (w\<lparr>loadTimeouts := (loadTimeouts w)[i := False]\<rparr>))
      else None)"
| "step cfg (RetryTimer k) w =
     (if k < length (retryTimers w)
      then Some (loadGtagScript cfg
                   (w\<lparr>retryTimers := take k (retryTimers w) @ drop (Suc k) (retryTimers w)\<rparr>))
      else None)"

fun steps :: "analytics_config \<Rightarrow> analytics_event list \<Rightarrow> analytics \<Rightarrow> analytics option" where
  "steps cfg [] w = Some w"
| "steps cfg (e # es) w = (case step cfg e w of None \<Rightarrow> None | Some w' \<Rightarrow> steps cfg es w')"

text \<open>The state in which the module starts, at a given time, on a page with the given
  storage and data layer, in a browser with or without \<^verbatim>\<open>navigator.sendBeacon\<close>.\<close>

definition start :: "int \<Rightarrow> local_storage \<Rightarrow> gtag_call list option \<Rightarrow> bool \<Rightarrow> analytics" where
  "start t ls dl sb =
     \<lparr>initialized = False, consentGiven = False, blocked = False, loadAttempts = 0,
      eventQueue = [], clock = t, dataLayer = dl, hasSendBeacon = sb, beacons = [],
      localStorage = ls, scripts = [], loadTimeouts = [], retryTimers = []\<rparr>"

subsection \<open>Notions used to state the results\<close>


definition entry :: "int \<times> string \<times> event_params \<times> bool \<Rightarrow> queued" where
  "entry call =
     (case call of (t, name, ps, immediate) \<Rightarrow>
        \<lparr>eventName = name, eventParams = ps\<lparr>timestamp := Some t\<rparr>\<rparr>)"

definition restamp :: "int \<Rightarrow> queued \<Rightarrow> queued" where
  "restamp t q = q\<lparr>eventParams := (eventParams q)\<lparr>timestamp := Some t\<rparr>\<rparr>"

definition as_event :: "queued \<Rightarrow> gtag_call" where
  "as_event q = Event (eventName q) (eventParams q)"

text \<open>A queue entry and a \<^verbatim>\<open>gtag\<close> call without the timestamp, for comparing events by
  name and payload; and the property that every queued name is a non-empty string.\<close>

definition unstamp :: "queued \<Rightarrow> queued" where
  "unstamp q = q\<lparr>eventParams := (eventParams q)\<lparr>timestamp := None\<rparr>\<rparr>"

fun unstamp_call :: "gtag_call \<Rightarrow> gtag_call" where
  "unstamp_call (Event name ps) = Event name (ps\<lparr>timestamp := None\<rparr>)"
| "unstamp_call call = call"

definition names_ok :: "analytics \<Rightarrow> bool" where
  "names_ok w \<longleftrightarrow> list_all (\<lambda>q. eventName q \<noteq> []) (eventQueue w)"


definition loader_inv :: "analytics_config \<Rightarrow> analytics \<Rightarrow> bool" where
  "loader_inv cfg w \<longleftrightarrow>
     loadAttempts w = length (scripts w) \<and>
     length (loadTimeouts w) = length (scripts w) \<and>
     length (scripts w) \<le> retryAttempts cfg \<and>
     list_all (\<lambda>d. d \<in> set (map (\<lambda>k. retryDelay cfg * k) [1..<retryAttempts cfg]))
              (retryTimers w)"

subsection \<open>Concrete pages and runs\<close>

text \<open>
  A page whose storage holds a consent that is granted and not expired, and one whose
  stored consent expired at time 1000. Three runs on the first page: every script fails
  at once (\<open>three_failures\<close>); the first script neither loads nor fails before its
  timeout and the two retries fail (\<open>late_load\<close>); and after the three failures, the
  user revokes consent, two events are tracked, and the user grants consent again.
  \<open>awaiting_consent\<close> is a page without stored consent after \<^verbatim>\<open>init\<close>, and the two
  calls are \<^verbatim>\<open>trackEvent\<close> calls at times 5 and 9; \<open>two_queued\<close> is the run of
  \<^verbatim>\<open>init\<close> and these two calls on that page. In \<open>revoked_while_loading\<close>, on the
  page with stored consent, the user revokes consent while the first script is loading,
  and an event is tracked.
\<close>

definition consent_stored :: local_storage where
  "consent_stored = Stored (Some (ConsentRecord True (Some 31536000000)))"

definition expired_storage :: local_storage where
  "expired_storage = Stored (Some (ConsentRecord True (Some 1000)))"

definition three_failures :: "analytics_event list" where
  "three_failures =
     [Init, ScriptFailed 0, RetryTimer 0, ScriptFailed 1, RetryTimer 0, ScriptFailed 2]"

definition late_load :: "analytics_event list" where
  "late_load =
     [Init, LoadTimeout 0, RetryTimer 0, ScriptFailed 1, RetryTimer 0, ScriptFailed 2]"

definition tracked_while_blocked :: "analytics_event list" where
  "tracked_while_blocked =
     three_failures @ [TrackEvent ''cta_click'' \<lparr>payload = [], timestamp = None\<rparr> False]"



definition revoked_while_loading :: "analytics_event list" where
  "revoked_while_loading =
     [Init,
      UpdateConsent False,
      TrackEvent ''cta_click''
        \<lparr>payload = [(''cta_name'', ''Download'')], timestamp = None\<rparr> False]"




section \<open>Lazy image loader\<close>

text \<open>
  The loader keeps two \<^verbatim>\<open>WeakMap\<close>s keyed by image, \<^verbatim>\<open>loadingImages\<close> and
  \<^verbatim>\<open>retryCount\<close>; no image ever reads another image's entries. The model is one image
  with its two entries. Of the element it keeps what the loader reads and writes: the
  \<^verbatim>\<open>src\<close>, the \<^verbatim>\<open>data-src\<close> attribute, the three classes, \<^verbatim>\<open>aria-busy\<close>,
  \<^verbatim>\<open>aria-label\<close>, \<^verbatim>\<open>alt\<close> and the inline opacity and transition. The two data URIs of
  the configuration are the constructors \<open>FallbackImage\<close> and \<open>ErrorImage\<close>, and
  \<open>NoSource\<close> is an element without \<^verbatim>\<open>src\<close>.

  \<^verbatim>\<open>loadImageWithRetry\<close> is asynchronous. A call reads the retry count, starts a
  network load with \<^verbatim>\<open>preloadImage\<close> and is suspended until the load settles; after a
  failure it is suspended again until its timer fires, and then calls itself. \<open>inflight\<close>
  holds the suspended calls of the image, each with the \<^verbatim>\<open>src\<close> and the
  \<^verbatim>\<open>currentRetries\<close> it holds in its local variables. Three counters record what
  happened: \<open>requests\<close> counts the calls of \<^verbatim>\<open>preloadImage\<close>, each of which starts one
  network load, \<open>failures\<close> counts the loads that failed, and \<open>delays\<close> lists the waits
  that were started, in milliseconds.
\<close>

record lazy_config =
  maxRetries :: nat
  imageRetryDelay :: nat
  fadeInDuration :: nat

definition LAZY_CONFIG :: lazy_config where
  "LAZY_CONFIG = \<lparr>maxRetries = 3, imageRetryDelay = 1000, fadeInDuration = 400\<rparr>"

datatype image_source = NoSource | Url string | FallbackImage | ErrorImage

datatype suspended = Preloading string nat | Delaying string nat

record image =
  src :: image_source
  data_src :: "string option"
  alt :: string
  placeholderClass :: bool
  loadedClass :: bool
  errorClass :: bool
  aria_busy :: bool
  aria_label :: "string option"
  style_opacity :: "nat option"
  style_transition :: "nat option"
  \<comment> \<open>the image's entries in \<^verbatim>\<open>state.loadingImages\<close> and \<^verbatim>\<open>state.retryCount\<close>\<close>
  loadingImages :: bool
  retryCount :: "nat option"
  \<comment> \<open>\<^verbatim>\<open>state.prefersReducedMotion\<close>\<close>
  prefersReducedMotion :: bool
  \<comment> \<open>the suspended calls of \<^verbatim>\<open>loadImageWithRetry\<close>, and the counters\<close>
  inflight :: "suspended list"
  requests :: nat
  failures :: nat
  delays :: "nat list"

definition handleImageError :: "image \<Rightarrow> image" where
  "handleImageError img =
     img\<lparr>src := ErrorImage,
         placeholderClass := False,
         errorClass := True,
         aria_busy := False,
         aria_label := Some ''Image failed to load'',
         data_src := None\<rparr>"

text \<open>What the \<^verbatim>\<open>try\<close> block does after \<^verbatim>\<open>preloadImage\<close> has resolved.\<close>

definition image_loaded :: "lazy_config \<Rightarrow> string \<Rightarrow> image \<Rightarrow> image" where
  "image_loaded cfg url img =
     (let img1 = img\<lparr>src := Url url,
                     data_src := None,
                     placeholderClass := False,
                     loadedClass := True,
                     aria_busy := False,
                     aria_label := Some (if alt img = [] then ''Workout plan image'' else alt img)\<rparr>;
          img2 = (if \<not> prefersReducedMotion img1
                  then img1\<lparr>style_transition := Some (fadeInDuration cfg),
                            style_opacity := Some 1\<rparr>
                  else img1)
      in img2\<lparr>retryCount := None\<rparr>)"

definition retries :: "image \<Rightarrow> nat" where
  \<comment> \<open>\<^verbatim>\<open>state.retryCount.get(img) || 0\<close>\<close>
  "retries img = (case retryCount img of None \<Rightarrow> 0 | Some n \<Rightarrow> n)"

text \<open>
  A call of \<^verbatim>\<open>loadImageWithRetry\<close> runs in up to three pieces. The call itself reads
  the retry count and starts the load. When the load has succeeded, the rest of the
  \<^verbatim>\<open>try\<close> block runs, then \<^verbatim>\<open>finally\<close>. When the load has failed, the \<^verbatim>\<open>catch\<close> block
  either sets the retry count and starts the timer, or, with no retry left, calls
  \<^verbatim>\<open>handleImageError\<close> and runs \<^verbatim>\<open>finally\<close>. When the timer has fired, the call calls
  \<^verbatim>\<open>loadImageWithRetry\<close> again and returns its promise without awaiting it, so its
  \<^verbatim>\<open>finally\<close> runs as soon as the inner call has started its load: the image leaves
  \<^verbatim>\<open>loadingImages\<close> while the retry is in flight.
\<close>

definition loadImageWithRetry :: "string \<Rightarrow> image \<Rightarrow> image" where
  "loadImageWithRetry url img =
     (let currentRetries = retries img
      in img\<lparr>requests := requests img + 1,
             inflight := inflight img @ [Preloading url currentRetries]\<rparr>)"

definition preload_resolved :: "lazy_config \<Rightarrow> string \<Rightarrow> image \<Rightarrow> image" where
  "preload_resolved cfg url img = (image_loaded cfg url img)\<lparr>loadingImages := False\<rparr>"

definition preload_rejected :: "lazy_config \<Rightarrow> string \<Rightarrow> nat \<Rightarrow> image \<Rightarrow> image" where
  "preload_rejected cfg url currentRetries img =
     (if currentRetries < maxRetries cfg
      then img\<lparr>retryCount := Some (currentRetries + 1),
               delays := delays img @ [imageRetryDelay cfg * 2 ^ currentRetries],
               inflight := inflight img @ [Delaying url currentRetries]\<rparr>
      else (handleImageError img)\<lparr>loadingImages := False\<rparr>)"

definition delay_elapsed :: "string \<Rightarrow> image \<Rightarrow> image" where
  "delay_elapsed url img = (loadImageWithRetry url img)\<lparr>loadingImages := False\<rparr>"

definition processImage :: "image \<Rightarrow> image" where
  "processImage img =
     (if loadingImages img \<or> data_src img = None then img
      else case data_src img of
             None \<Rightarrow> img
           | Some url \<Rightarrow>
               if url = [] then img
               else loadImageWithRetry url (img\<lparr>loadingImages := True, aria_busy := True\<rparr>))"

text \<open>
  \<^verbatim>\<open>observeImages\<close> on an image that its selector matches, that is, one with a
  \<^verbatim>\<open>data-src\<close> attribute (the \<^verbatim>\<open>loading\<close> property it sets is not kept); and \<^verbatim>\<open>cleanup\<close>,
  which replaces both maps by empty ones.
\<close>

definition observeImages :: "image \<Rightarrow> image" where
  "observeImages img =
     (if data_src img = None then img
      else img\<lparr>src := (if src img = NoSource then FallbackImage else src img),
               placeholderClass := True\<rparr>)"

definition cleanup :: "image \<Rightarrow> image" where
  "cleanup img = img\<lparr>loadingImages := False, retryCount := None\<rparr>"

text \<open>
  What can happen to an image: \<^verbatim>\<open>processImage\<close> is called on it (by the intersection
  observer, which \<^verbatim>\<open>observeImages\<close> can attach again, or by
  \<^verbatim>\<open>loadAllImagesImmediately\<close>); the load of the suspended call at position \<open>k\<close>
  succeeds or fails; the timer of the suspended call at position \<open>k\<close> fires;
  \<^verbatim>\<open>cleanup\<close> or \<^verbatim>\<open>observeImages\<close> is called (both are public, and
  \<^verbatim>\<open>reinitialize\<close> is one after the other); the motion preference changes.
  \<open>loader_step\<close> is \<open>None\<close> for a callback that no suspended call is waiting for.
\<close>

datatype loader_event =
    ProcessImage
  | PreloadResolved nat
  | PreloadRejected nat
  | DelayElapsed nat
  | Cleanup
  | ObserveImages
  | MotionChange bool

definition resume :: "nat \<Rightarrow> image \<Rightarrow> image" where
  "resume k img = img\<lparr>inflight := take k (inflight img) @ drop (Suc k) (inflight img)\<rparr>"

fun loader_step :: "lazy_config \<Rightarrow> loader_event \<Rightarrow> image \<Rightarrow> image option" where
  "loader_step cfg ProcessImage img = Some (processImage img)"
| "loader_step cfg (PreloadResolved k) img =
     (if k < length (inflight img)
      then (case inflight img ! k of
              Preloading url currentRetries \<Rightarrow> Some (preload_resolved cfg url (resume k img))
            | Delaying url currentRetries \<Rightarrow> None)
      else None)"
| "loader_step cfg (PreloadRejected k) img =
     (if k < length (inflight img)
      then (case inflight img ! k of
              Preloading url currentRetries \<Rightarrow>
                Some (preload_rejected cfg url currentRetries
                        (resume k (img\<lparr>failures := failures img + 1\<rparr>)))
            | Delaying url currentRetries \<Rightarrow> None)
      else None)"
| "loader_step cfg (DelayElapsed k) img =
     (if k < length (inflight img)
      then (case inflight img ! k of
              Preloading url currentRetries \<Rightarrow> None
            | Delaying url currentRetries \<Rightarrow> Some (delay_elapsed url (resume k img)))
      else None)"
| "loader_step cfg Cleanup img = Some (cleanup img)"
| "loader_step cfg ObserveImages img = Some (observeImages img)"
| "loader_step cfg (MotionChange reduce) img = Some (img\<lparr>prefersReducedMotion := reduce\<rparr>)"

fun loader_steps :: "lazy_config \<Rightarrow> loader_event list \<Rightarrow> image \<Rightarrow> image option" where
  "loader_steps cfg [] img = Some img"
| "loader_steps cfg (e # es) img =
     (case loader_step cfg e img of None \<Rightarrow> None | Some img' \<Rightarrow> loader_steps cfg es img')"

text \<open>
  An image that the loader has not touched yet: a non-empty \<^verbatim>\<open>data-src\<close>, neither the
  loaded nor the error class, nothing in the two maps, no call suspended, and the
  counters at zero. A run loads the image \<^emph>\<open>once\<close> when \<^verbatim>\<open>processImage\<close> and
  \<^verbatim>\<open>cleanup\<close> are not called while a call of \<^verbatim>\<open>loadImageWithRetry\<close> for the image is
  suspended. \<open>single_chain\<close> lists the states of such a run: not started, a load in
  flight, a timer pending, the image shown, and given up.
\<close>

definition unprocessed :: "string \<Rightarrow> image \<Rightarrow> bool" where
  "unprocessed url img \<longleftrightarrow>
     data_src img = Some url \<and> url \<noteq> [] \<and> \<not> loadedClass img \<and> \<not> errorClass img \<and>
     \<not> loadingImages img \<and> retryCount img = None \<and> inflight img = [] \<and>
     requests img = 0 \<and> failures img = 0 \<and> delays img = []"

fun loads_once :: "lazy_config \<Rightarrow> loader_event list \<Rightarrow> image \<Rightarrow> bool" where
  "loads_once cfg [] img = True"
| "loads_once cfg (e # es) img =
     ((inflight img = [] \<or> (e \<noteq> ProcessImage \<and> e \<noteq> Cleanup)) \<and>
      (case loader_step cfg e img of None \<Rightarrow> False | Some img' \<Rightarrow> loads_once cfg es img'))"

definition backoff :: "lazy_config \<Rightarrow> nat \<Rightarrow> nat list" where
  "backoff cfg n = map (\<lambda>j. imageRetryDelay cfg * 2 ^ j) [0..<n]"

definition not_started :: "string \<Rightarrow> image \<Rightarrow> bool" where
  "not_started url img \<longleftrightarrow>
     inflight img = [] \<and> \<not> errorClass img \<and> \<not> loadedClass img \<and>
     data_src img = Some url \<and> retryCount img = None \<and>
     requests img = 0 \<and> failures img = 0"

definition load_in_flight :: "lazy_config \<Rightarrow> string \<Rightarrow> image \<Rightarrow> bool" where
  "load_in_flight cfg url img \<longleftrightarrow>
     inflight img = [Preloading url (failures img)] \<and> \<not> errorClass img \<and>
     \<not> loadedClass img \<and> data_src img = Some url \<and>
     failures img \<le> maxRetries cfg \<and> requests img = failures img + 1"

definition timer_pending :: "lazy_config \<Rightarrow> string \<Rightarrow> image \<Rightarrow> bool" where
  "timer_pending cfg url img \<longleftrightarrow>
     inflight img = [Delaying url (failures img - 1)] \<and> \<not> errorClass img \<and>
     \<not> loadedClass img \<and> data_src img = Some url \<and>
     0 < failures img \<and> failures img \<le> maxRetries cfg \<and>
     requests img = failures img \<and> retryCount img = Some (failures img)"

definition shown :: "lazy_config \<Rightarrow> string \<Rightarrow> image \<Rightarrow> bool" where
  "shown cfg url img \<longleftrightarrow>
     inflight img = [] \<and> \<not> errorClass img \<and> loadedClass img \<and>
     data_src img = None \<and> src img = Url url \<and>
     failures img \<le> maxRetries cfg \<and> requests img = failures img + 1"

definition given_up :: "lazy_config \<Rightarrow> image \<Rightarrow> bool" where
  "given_up cfg img \<longleftrightarrow>
     inflight img = [] \<and> errorClass img \<and> \<not> placeholderClass img \<and>
     data_src img = None \<and> src img = ErrorImage \<and>
     failures img = maxRetries cfg + 1 \<and> requests img = maxRetries cfg + 1"

definition single_chain :: "lazy_config \<Rightarrow> string \<Rightarrow> image \<Rightarrow> bool" where
  "single_chain cfg url img \<longleftrightarrow>
     url \<noteq> [] \<and>
     delays img = backoff cfg (min (failures img) (maxRetries cfg)) \<and>
     (not_started url img \<or> load_in_flight cfg url img \<or> timer_pending cfg url img \<or>
      shown cfg url img \<or> given_up cfg img)"

text \<open>An image as \<^verbatim>\<open>observeImages\<close> leaves it: the placeholder in place and nothing in
  the two maps. Three runs with the configured three retries: three failed loads; four
  failed loads; and a run in which \<^verbatim>\<open>processImage\<close> is called again while the first
  retry is in flight, which the image's absence from \<^verbatim>\<open>loadingImages\<close> lets through.\<close>

definition lazy_image :: "string \<Rightarrow> image" where
  "lazy_image url =
     \<lparr>src = FallbackImage, data_src = Some url, alt = ''Workout'',
      placeholderClass = True, loadedClass = False, errorClass = False,
      aria_busy = False, aria_label = None, style_opacity = None, style_transition = None,
      loadingImages = False, retryCount = None, prefersReducedMotion = False,
      inflight = [], requests = 0, failures = 0, delays = []\<rparr>"

definition three_failed_loads :: "loader_event list" where
  "three_failed_loads =
     [ProcessImage, PreloadRejected 0, DelayElapsed 0, PreloadRejected 0, DelayElapsed 0,
      PreloadRejected 0]"

definition four_failed_loads :: "loader_event list" where
  "four_failed_loads = three_failed_loads @ [DelayElapsed 0, PreloadRejected 0]"

definition processed_twice :: "loader_event list" where
  "processed_twice =
     [ProcessImage, PreloadRejected 0, DelayElapsed 0, ProcessImage,
      PreloadRejected 0, PreloadRejected 0, DelayElapsed 0, DelayElapsed 0,
      PreloadRejected 0, PreloadRejected 0, DelayElapsed 0, PreloadRejected 1]"

section \<open>Mobile navigation menu\<close>

text \<open>
  \<^verbatim>\<open>navigation.js\<close> opens and closes the mobile menu. The model keeps the three fields
  of \<^verbatim>\<open>state\<close> the two functions use and what they write on the page: the attributes
  of the toggle, the menu and the overlay, the body's overflow, and the focus. An element
  is a number. \<open>menuFocusable\<close> is what \<^verbatim>\<open>getFocusableElements(elements.navMenu)\<close>
  returns; \<open>accepts_focus\<close> says for which elements a call of \<^verbatim>\<open>focus()\<close> moves the
  focus (the browser ignores the call on the others); \<open>focusTimers\<close> counts the pending
  timers that \<^verbatim>\<open>openMenu\<close> has set.
\<close>

type_synonym element = nat

record nav =
  isMenuOpen :: bool
  lastFocusedElement :: "element option"
  focusableElements :: "element list"
  activeElement :: "element option"
  toggle_expanded :: bool
  menu_hidden :: bool
  overlay_hidden :: bool
  menu_visible :: bool
  overlay_visible :: bool
  body_overflow_hidden :: bool
  menuFocusable :: "element list"
  accepts_focus :: "element \<Rightarrow> bool"
  focusTimers :: nat

definition focus :: "element \<Rightarrow> nav \<Rightarrow> nav" where
  "focus el n = (if accepts_focus n el then n\<lparr>activeElement := Some el\<rparr> else n)"

definition openMenu :: "nav \<Rightarrow> nav" where
  "openMenu n =
     (if isMenuOpen n then n
      else
        let n1 = n\<lparr>isMenuOpen := True, lastFocusedElement := activeElement n\<rparr>;
            n2 = n1\<lparr>toggle_expanded := True, menu_hidden := False, overlay_hidden := False,
                    menu_visible := True, overlay_visible := True,
                    body_overflow_hidden := True\<rparr>;
            n3 = n2\<lparr>focusableElements := menuFocusable n2\<rparr>
        in if length (focusableElements n3) > 0
           then n3\<lparr>focusTimers := focusTimers n3 + 1\<rparr>
           else n3)"

text \<open>The timer's callback reads \<^verbatim>\<open>state.focusableElements[0]\<close> when it runs, and throws
  when the list is empty by then.\<close>

definition focusTimer :: "nav \<Rightarrow> js_error + nav" where
  "focusTimer n =
     (case focusableElements n of
        [] \<Rightarrow> Inl TypeError
      | el # _ \<Rightarrow> Inr (focus el (n\<lparr>focusTimers := focusTimers n - 1\<rparr>)))"

definition closeMenu :: "nav \<Rightarrow> nav" where
  "closeMenu n =
     (if \<not> isMenuOpen n then n
      else
        let n1 = n\<lparr>isMenuOpen := False\<rparr>;
            n2 = n1\<lparr>toggle_expanded := False, menu_hidden := True, overlay_hidden := True,
                    menu_visible := False, overlay_visible := False,
                    body_overflow_hidden := False\<rparr>;
            n3 = (case lastFocusedElement n2 of None \<Rightarrow> n2 | Some el \<Rightarrow> focus el n2)
        in n3\<lparr>focusableElements := []\<rparr>)"

definition toggleMenu :: "nav \<Rightarrow> nav" where
  "toggleMenu n = (if isMenuOpen n then closeMenu n else openMenu n)"

text \<open>\<^verbatim>\<open>trapFocus\<close> on a Tab key, with the \<^verbatim>\<open>shiftKey\<close> flag.\<close>

definition trapFocus :: "bool \<Rightarrow> element list \<Rightarrow> nav \<Rightarrow> nav" where
  "trapFocus shiftKey els n =
     (case els of
        [] \<Rightarrow> n
      | firstElement # _ \<Rightarrow>
          let lastElement = last els in
          if shiftKey \<and> activeElement n = Some firstElement then focus lastElement n
          else if \<not> shiftKey \<and> activeElement n = Some lastElement then focus firstElement n
          else n)"

datatype nav_key = Escape | Tab bool | AnyOtherKey

fun nav_handleKeyDown :: "nav_key \<Rightarrow> nav \<Rightarrow> nav" where
  "nav_handleKeyDown Escape n = (if isMenuOpen n then closeMenu n else n)"
| "nav_handleKeyDown (Tab shiftKey) n =
     (if isMenuOpen n then trapFocus shiftKey (focusableElements n) n else n)"
| "nav_handleKeyDown AnyOtherKey n = n"

text \<open>
  What can happen while the menu stays open: the focus timer fires, a key is pressed
  other than Escape, or the user moves the focus to some element by other means. A timer
  that throws leaves the state as it was, one timer fewer.
\<close>

datatype menu_event = FocusTimerFires | TabKey bool | FocusMoved element

fun while_open :: "menu_event \<Rightarrow> nav \<Rightarrow> nav" where
  "while_open FocusTimerFires n =
     (if focusTimers n = 0 then n
      else case focusTimer n of
             Inl _ \<Rightarrow> n\<lparr>focusTimers := focusTimers n - 1\<rparr>
           | Inr n' \<Rightarrow> n')"
| "while_open (TabKey shiftKey) n = nav_handleKeyDown (Tab shiftKey) n"
| "while_open (FocusMoved el) n = n\<lparr>activeElement := Some el\<rparr>"

definition closed_menu :: "element option \<Rightarrow> element list \<Rightarrow> (element \<Rightarrow> bool) \<Rightarrow> nav" where
  "closed_menu active links ok =
     \<lparr>isMenuOpen = False, lastFocusedElement = None, focusableElements = [],
      activeElement = active, toggle_expanded = False, menu_hidden = True,
      overlay_hidden = True, menu_visible = False, overlay_visible = False,
      body_overflow_hidden = False, menuFocusable = links, accepts_focus = ok,
      focusTimers = 0\<rparr>"

fun menu_events :: "menu_event list \<Rightarrow> nav \<Rightarrow> nav" where
  "menu_events [] n = n"
| "menu_events (e # es) n = menu_events es (while_open e n)"

text \<open>A page on which element 1 (the toggle button) has the focus, the menu is closed and
  holds the links 10, 11 and 12, and every element accepts the focus.\<close>

definition page_nav :: nav where
  "page_nav = closed_menu (Some 1) [10, 11, 12] (\<lambda>el. True)"

text \<open>The same page with a menu that holds nothing focusable.\<close>

definition empty_menu_nav :: nav where
  "empty_menu_nav = closed_menu (Some 1) [] (\<lambda>el. True)"

section \<open>Results: carousel\<close>

lemma strict_eq_Number [simp]: "strict_eq (Number i) v \<longleftrightarrow> v = Number i"
  by (cases v) auto

lemma strict_eq_NaN [simp]: "\<not> strict_eq NaN v" "\<not> strict_eq v NaN"
  by (cases v; simp)+

lemma length_mark_current [simp]: "length (mark_current cur xs) = length xs"
  by (simp add: mark_current_def)

lemma nth_mark_current:
  "k < length xs \<Longrightarrow>
   mark_current cur xs ! k =
     (if cur = Number (int k) then (xs ! k)\<lparr>is_active := True, aria_current := True\<rparr>
      else (xs ! k)\<lparr>is_active := False, aria_current := False\<rparr>)"
  by (simp add: mark_current_def nth_enumerate_eq)

lemma filter_eq_upt: "j < n \<Longrightarrow> filter (\<lambda>k. k = j) [0..<n] = [j]"
  by (induction n) (auto simp: less_Suc_eq)

lemma slides_updateUI [simp]: "slides (updateUI c) = mark_current (currentIndex c) (slides c)"
  by (simp add: updateUI_def announceSlideChange_def Let_def)

lemma currentIndex_updateUI [simp]: "currentIndex (updateUI c) = currentIndex c"
  by (simp add: updateUI_def announceSlideChange_def Let_def)

lemma slides_updateSlidePosition [simp]: "slides (updateSlidePosition a c) = slides c"
  by (simp add: updateSlidePosition_def Let_def)

lemma currentIndex_updateSlidePosition [simp]:
  "currentIndex (updateSlidePosition a c) = currentIndex c"
  by (simp add: updateSlidePosition_def Let_def)

lemma goToSlide_valid:
  assumes "0 \<le> i" "i < int (length (slides c))" "currentIndex c \<noteq> Number i"
    "\<not> isTransitioning c"
  shows "currentIndex (goToSlide (Number i) c) = Number i"
    and "slides (goToSlide (Number i) c) = mark_current (Number i) (slides c)"
  using assms by (simp_all add: goToSlide_def)

lemma replicate3: "replicate 3 x = [x, x, x]" "replicate 4 x = [x, x, x, x]"
  by (simp_all add: eval_nat_numeral)

lemma carousel3_eq:
  "carousel3 =
     \<lparr>autoPlayInterval = 5000, autoPlayEnabled = True, transitionDuration = 500,
      swipeThreshold = 50, pauseOnHover = True, pauseOnFocus = True, enableKeyboard = True,
      enableTouch = True, loop = True,
      slides = [\<lparr>is_active = True, aria_current = True\<rparr>,
                \<lparr>is_active = False, aria_current = False\<rparr>,
                \<lparr>is_active = False, aria_current = False\<rparr>],
      dots = [\<lparr>is_active = True, aria_current = True\<rparr>,
              \<lparr>is_active = False, aria_current = False\<rparr>,
              \<lparr>is_active = False, aria_current = False\<rparr>],
      prevButton = Some \<lparr>disabled = False, aria_disabled = False\<rparr>,
      nextButton = Some \<lparr>disabled = False, aria_disabled = False\<rparr>,
      playPauseButton = None, track_transition = Unset, track_transform = None,
      track_dragging = False, liveRegion = Some (Number 1, 3), slideWidth = 320,
      currentIndex = Number 0, isPlaying = True, isDragging = False, isTransitioning = False,
      startX = 0, currentX = 0, translateX = Number 0, autoPlayTimer = True,
      resizeObserver = True, intersectionObserver = True\<rparr>"
  by (simp add: carousel3_def construct_def page_options_def three_slides_def Let_def
        setupAccessibility_def updatePlayPauseButton_def updateUI_def announceSlideChange_def
        mark_current_def startAutoPlay_def replicate3)

lemmas carousel_defs =
  goToSlide_def goToNext_def goToPrevious_def updateUI_def updateSlidePosition_def
  announceSlideChange_def mark_current_def startAutoPlay_def stopAutoPlay_def
  resetAutoPlay_def handleTouchStart_def handleTouchMove_def handleTouchEnd_def
  handleDotClick_def handleTransitionEnd_def autoPlayTick_def index_in_range_def Let_def

text \<open>
  Claim C1. For a carousel that is not in a transition and a slide index \<open>i\<close> in range
  and different from the current one, \<^verbatim>\<open>goToSlide(i)\<close> sets \<^verbatim>\<open>currentIndex\<close> to \<open>i\<close>,
  keeps the number of slides, and leaves the active class and the \<^verbatim>\<open>aria-current\<close>
  attribute on the slide at \<open>i\<close> and on no other: the positions of the slides that
  carry either are exactly the list \<open>[i]\<close>.
\<close>

theorem goToSlide_marks_exactly_one:
  assumes "0 \<le> i" "i < int (length (slides c))" "currentIndex c \<noteq> Number i"
    "\<not> isTransitioning c"
  shows "currentIndex (goToSlide (Number i) c) = Number i \<and>
         length (slides (goToSlide (Number i) c)) = length (slides c) \<and>
         (\<forall>k < length (slides c).
            is_active (slides (goToSlide (Number i) c) ! k) = (int k = i) \<and>
            aria_current (slides (goToSlide (Number i) c) ! k) = (int k = i)) \<and>
         [k \<leftarrow> [0..<length (slides c)]. is_active (slides (goToSlide (Number i) c) ! k)]
           = [nat i] \<and>
         [k \<leftarrow> [0..<length (slides c)]. aria_current (slides (goToSlide (Number i) c) ! k)]
           = [nat i]"
proof -
  let ?c = "goToSlide (Number i) c"
  have idx: "currentIndex ?c = Number i"
    and sl: "slides ?c = mark_current (Number i) (slides c)"
    using assms by (rule goToSlide_valid)+
  have act: "is_active (slides ?c ! k) = (int k = i)"
    and cur: "aria_current (slides ?c ! k) = (int k = i)" if "k < length (slides c)" for k
    using that by (auto simp add: sl nth_mark_current)
  have j: "nat i < length (slides c)" using assms by linarith
  have eq: "(int k = i) = (k = nat i)" for k using assms(1) by auto
  have "[k \<leftarrow> [0..<length (slides c)]. is_active (slides ?c ! k)]
        = filter (\<lambda>k. k = nat i) [0..<length (slides c)]"
    by (rule filter_cong) (simp_all add: act eq)
  then have f1: "[k \<leftarrow> [0..<length (slides c)]. is_active (slides ?c ! k)] = [nat i]"
    by (simp add: filter_eq_upt [OF j])
  have "[k \<leftarrow> [0..<length (slides c)]. aria_current (slides ?c ! k)]
        = filter (\<lambda>k. k = nat i) [0..<length (slides c)]"
    by (rule filter_cong) (simp_all add: cur eq)
  then have f2: "[k \<leftarrow> [0..<length (slides c)]. aria_current (slides ?c ! k)] = [nat i]"
    by (simp add: filter_eq_upt [OF j])
  show ?thesis using idx sl act cur f1 f2 by simp
qed

text \<open>On the page's carousel of three slides, which starts at slide 0, for \<open>i = 2\<close>.\<close>

theorem goToSlide_marks_exactly_one_witness:
  "(0::int) \<le> 2 \<and> 2 < int (length (slides carousel3)) \<and>
   currentIndex carousel3 \<noteq> Number 2 \<and> \<not> isTransitioning carousel3 \<and>
   currentIndex (goToSlide (Number 2) carousel3) = Number 2 \<and>
   [k \<leftarrow> [0..<length (slides carousel3)].
      is_active (slides (goToSlide (Number 2) carousel3) ! k)] = [nat 2]"
proof -
  have h: "(0::int) \<le> 2" "2 < int (length (slides carousel3))"
    "currentIndex carousel3 \<noteq> Number 2" "\<not> isTransitioning carousel3"
    by (simp_all add: carousel3_eq)
  from goToSlide_marks_exactly_one [OF h] h show ?thesis by simp
qed

subsection \<open>The index stays in range under integer arguments\<close>

lemma keep_startAutoPlay [simp]:
  "currentIndex (startAutoPlay c) = currentIndex c" "slides (startAutoPlay c) = slides c"
  by (simp_all add: startAutoPlay_def)

lemma keep_stopAutoPlay [simp]:
  "currentIndex (stopAutoPlay c) = currentIndex c" "slides (stopAutoPlay c) = slides c"
  by (simp_all add: stopAutoPlay_def)

lemma keep_resetAutoPlay [simp]:
  "currentIndex (resetAutoPlay c) = currentIndex c" "slides (resetAutoPlay c) = slides c"
  by (simp_all add: resetAutoPlay_def)

lemma keep_updatePlayPauseButton [simp]:
  "currentIndex (updatePlayPauseButton c) = currentIndex c"
  "slides (updatePlayPauseButton c) = slides c"
  by (simp_all add: updatePlayPauseButton_def split: option.splits)

lemma keep_play_pause [simp]:
  "currentIndex (play c) = currentIndex c" "slides (play c) = slides c"
  "currentIndex (pause c) = currentIndex c" "slides (pause c) = slides c"
  by (simp_all add: play_def pause_def)

lemma keep_onIntersection [simp]:
  "currentIndex (onIntersection es c) = currentIndex c \<and> slides (onIntersection es c) = slides c"
  by (induction es arbitrary: c) simp_all

lemma index_in_range_iff:
  "index_in_range c \<longleftrightarrow>
     (\<exists>k. currentIndex c = Number k \<and> 0 \<le> k \<and> k < int (length (slides c)))"
  by (cases "currentIndex c") (simp_all add: index_in_range_def)

lemma index_in_range_cong:
  "currentIndex c' = currentIndex c \<Longrightarrow> length (slides c') = length (slides c) \<Longrightarrow>
   index_in_range c \<Longrightarrow> index_in_range c'"
  by (simp add: index_in_range_def)

lemma index_in_range_goToSlide:
  "index_in_range c \<Longrightarrow> index_in_range (goToSlide (Number i) c)"
  by (simp add: index_in_range_def goToSlide_def)

lemma index_in_range_goToNext: "index_in_range c \<Longrightarrow> index_in_range (goToNext c)"
  by (auto simp: index_in_range_iff goToNext_def goToSlide_def Let_def)

lemma index_in_range_goToPrevious: "index_in_range c \<Longrightarrow> index_in_range (goToPrevious c)"
  by (auto simp: index_in_range_iff goToPrevious_def goToSlide_def Let_def)

lemmas index_steps =
  index_in_range_cong index_in_range_goToSlide index_in_range_goToNext
  index_in_range_goToPrevious

lemma index_in_range_dispatch:
  "integer_call e \<Longrightarrow> index_in_range c \<Longrightarrow> index_in_range (dispatch e c)"
proof (cases e)
  case (KeyDown k inside)
  assume "index_in_range c"
  then show ?thesis using KeyDown
    by (cases k) (auto simp: handlePlayPauseClick_def intro: index_steps)
next
  case TouchEnd
  assume a: "index_in_range c"
  have "index_in_range (c\<lparr>isDragging := False, track_dragging := False\<rparr>)"
    using a by (simp add: index_in_range_def)
  then show ?thesis using TouchEnd a
    by (auto simp: handleTouchEnd_def Let_def intro: index_steps)
next
  case (GoToSlide v)
  assume "integer_call e" "index_in_range c"
  then show ?thesis using GoToSlide
    by (cases v) (simp_all add: index_in_range_goToSlide)
qed (auto simp: handlePrevClick_def handleNextClick_def handleDotClick_def
       handlePlayPauseClick_def handleTouchStart_def handleTouchMove_def Let_def
       handleMouseEnter_def handleMouseLeave_def handleFocus_def handleBlur_def
       handleTransitionEnd_def handleVisibilityChange_def onResize_def autoPlayTick_def
       intro: index_steps)

lemma index_in_range_run:
  "list_all integer_call es \<Longrightarrow> index_in_range c \<Longrightarrow> index_in_range (run es c)"
  by (induction es arbitrary: c) (simp_all add: index_in_range_dispatch)

lemma length_slides_goToSlide [simp]: "length (slides (goToSlide i c)) = length (slides c)"
  by (simp add: goToSlide_def)

lemma length_slides_goToNext [simp]: "length (slides (goToNext c)) = length (slides c)"
  by (simp add: goToNext_def Let_def)

lemma length_slides_goToPrevious [simp]: "length (slides (goToPrevious c)) = length (slides c)"
  by (simp add: goToPrevious_def Let_def)

lemma length_slides_dispatch: "length (slides (dispatch e c)) = length (slides c)"
proof (cases e)
  case (KeyDown k inside)
  then show ?thesis by (cases k) (simp_all add: handlePlayPauseClick_def)
qed (simp_all add: handlePrevClick_def handleNextClick_def handleDotClick_def
       handlePlayPauseClick_def handleTouchStart_def handleTouchMove_def handleTouchEnd_def
       Let_def handleMouseEnter_def handleMouseLeave_def handleFocus_def handleBlur_def
       handleTransitionEnd_def handleVisibilityChange_def onResize_def autoPlayTick_def)

lemma length_slides_run: "length (slides (run es c)) = length (slides c)"
  by (induction es arbitrary: c) (simp_all add: length_slides_dispatch)

lemma construct_initial:
  "construct opts m hasIO hasRO = Inr c \<Longrightarrow>
   currentIndex c = Number 0 \<and> length (slides c) = length (m_slides m) \<and> m_slides m \<noteq> []"
  by (auto simp: construct_def Let_def setupAccessibility_def split: if_splits)

text \<open>
  What does hold of the index: a constructed carousel keeps
  \<open>0 \<le> currentIndex < slideCount\<close>, and its number of slides, through every sequence of
  events whose calls of \<^verbatim>\<open>goToSlide\<close> pass integers. The listeners, observers and timers
  of the class only ever pass integers, so the sole way out of the range is a call of
  the public method by other code.
\<close>

lemma integer_calls_keep_index_in_range:
  assumes "construct opts m hasIO hasRO = Inr c" "list_all integer_call es"
  shows "index_in_range (run es c) \<and> length (slides (run es c)) = length (slides c)"
proof -
  have "index_in_range c"
    using construct_initial [OF assms(1)]
    by (cases "slides c") (simp_all add: index_in_range_def)
  then show ?thesis using assms(2) by (simp add: index_in_range_run length_slides_run)
qed

text \<open>
  Claim C7. In a carousel of three slides with looping on and no transition under way,
  \<^verbatim>\<open>goToPrevious()\<close> at index 0 sets the index to 2, and \<^verbatim>\<open>goToNext()\<close> at index 2
  sets it to 0.
\<close>

theorem three_slides_wrap_around:
  assumes "length (slides c) = 3" "loop c" "\<not> isTransitioning c"
  shows "(currentIndex c = Number 0 \<longrightarrow> currentIndex (goToPrevious c) = Number 2) \<and>
         (currentIndex c = Number 2 \<longrightarrow> currentIndex (goToNext c) = Number 0)"
proof (rule conjI; rule impI)
  assume at0: "currentIndex c = Number 0"
  have "goToPrevious c = goToSlide (Number 2) c"
    using assms at0 by (simp add: goToPrevious_def Let_def)
  moreover have "currentIndex (goToSlide (Number 2) c) = Number 2"
    using assms at0 by (intro goToSlide_valid) simp_all
  ultimately show "currentIndex (goToPrevious c) = Number 2" by simp
next
  assume at2: "currentIndex c = Number 2"
  have "goToNext c = goToSlide (Number 0) c"
    using assms at2 by (simp add: goToNext_def Let_def)
  moreover have "currentIndex (goToSlide (Number 0) c) = Number 0"
    using assms at2 by (intro goToSlide_valid) simp_all
  ultimately show "currentIndex (goToNext c) = Number 0" by simp
qed

text \<open>The page's carousel starts at slide 0; going back leads to slide 2, and once that
  transition has ended, going forward leads to slide 0 again.\<close>

theorem three_slides_wrap_around_witness:
  "length (slides carousel3) = 3 \<and> loop carousel3 \<and> \<not> isTransitioning carousel3 \<and>
   currentIndex carousel3 = Number 0 \<and>
   currentIndex (goToPrevious carousel3) = Number 2 \<and>
   currentIndex (goToNext (handleTransitionEnd (goToPrevious carousel3))) = Number 0"
proof -
  let ?d = "handleTransitionEnd (goToPrevious carousel3)"
  have h: "length (slides carousel3) = 3" "loop carousel3" "\<not> isTransitioning carousel3"
    and at0: "currentIndex carousel3 = Number 0"
    by (simp_all add: carousel3_eq)
  have h': "length (slides ?d) = 3" "loop ?d" "\<not> isTransitioning ?d"
    and at2: "currentIndex ?d = Number 2"
    by (simp_all add: carousel3_eq carousel_defs)
  from three_slides_wrap_around [OF h] three_slides_wrap_around [OF h'] h at0 at2
  show ?thesis by simp
qed

text \<open>
  Claim C8. The claim fails for the public method \<^verbatim>\<open>goToSlide\<close>. Its range check
  \<^verbatim>\<open>index < 0 || index >= this.slides.length\<close>, which is there to refuse an invalid
  index, is false for \<^verbatim>\<open>NaN\<close>, and so is the test \<^verbatim>\<open>index === this.state.currentIndex\<close>
  before it. On every carousel that is not in a transition, \<^verbatim>\<open>goToSlide(NaN)\<close> therefore
  stores \<^verbatim>\<open>NaN\<close> in \<^verbatim>\<open>currentIndex\<close>, which is not within \<open>0 \<le> currentIndex < slideCount\<close>;
  no slide is left active; and once the transition has ended neither \<^verbatim>\<open>goToNext()\<close> nor
  \<^verbatim>\<open>goToPrevious()\<close> brings the index back, since \<^verbatim>\<open>NaN + 1\<close> and \<^verbatim>\<open>NaN - 1\<close> are
  \<^verbatim>\<open>NaN\<close> and pass the same checks.
\<close>

theorem goToSlide_stores_NaN:
  assumes "\<not> isTransitioning c"
  shows "currentIndex (goToSlide NaN c) = NaN \<and>
         \<not> index_in_range (goToSlide NaN c) \<and>
         length (slides (goToSlide NaN c)) = length (slides c) \<and>
         [k \<leftarrow> [0..<length (slides c)]. is_active (slides (goToSlide NaN c) ! k)] = [] \<and>
         currentIndex (goToNext (handleTransitionEnd (goToSlide NaN c))) = NaN \<and>
         currentIndex (goToPrevious (handleTransitionEnd (goToSlide NaN c))) = NaN"
proof -
  let ?c = "goToSlide NaN c"
  have idx: "currentIndex ?c = NaN" and sl: "slides ?c = mark_current NaN (slides c)"
    using assms by (simp_all add: goToSlide_def)
  have out: "\<not> index_in_range ?c" by (simp add: index_in_range_def idx)
  have "\<not> is_active (slides ?c ! k)" if "k < length (slides c)" for k
    using that by (simp add: sl nth_mark_current)
  then have none: "[k \<leftarrow> [0..<length (slides c)]. is_active (slides ?c ! k)] = []"
    by (simp add: filter_empty_conv)
  let ?d = "handleTransitionEnd ?c"
  have d: "currentIndex ?d = NaN" "\<not> isTransitioning ?d"
    by (simp_all add: handleTransitionEnd_def idx)
  have nx: "currentIndex (goToNext ?d) = NaN"
    using d by (simp add: goToNext_def goToSlide_def Let_def)
  have pv: "currentIndex (goToPrevious ?d) = NaN"
    using d by (simp add: goToPrevious_def goToSlide_def Let_def)
  show ?thesis using idx out none nx pv by simp
qed

text \<open>On the page's carousel, which the constructor leaves at slide 0 and in range:
  the one call \<^verbatim>\<open>goToSlide(NaN)\<close> takes the index out of the range.\<close>

theorem goToSlide_stores_NaN_witness:
  "\<not> isTransitioning carousel3 \<and> index_in_range carousel3 \<and>
   currentIndex (run [GoToSlide NaN] carousel3) = NaN \<and>
   \<not> index_in_range (run [GoToSlide NaN] carousel3)"
proof -
  have h: "\<not> isTransitioning carousel3" and r: "index_in_range carousel3"
    by (simp_all add: carousel3_eq index_in_range_def)
  from goToSlide_stores_NaN [OF h] h r show ?thesis by simp
qed

text \<open>
  Claim C9. While \<^verbatim>\<open>isTransitioning\<close> is true, \<^verbatim>\<open>goToSlide\<close>, \<^verbatim>\<open>goToNext\<close>,
  \<^verbatim>\<open>goToPrevious\<close> and \<^verbatim>\<open>handleTouchStart\<close> return the carousel as it was: the index,
  every other field of the state, and the page.
\<close>

theorem navigation_is_noop_while_transitioning:
  assumes "isTransitioning c"
  shows "goToSlide i c = c \<and> goToNext c = c \<and> goToPrevious c = c \<and>
         handleTouchStart clientX c = c"
  using assms by (simp add: goToSlide_def goToNext_def goToPrevious_def handleTouchStart_def)

text \<open>The carousel of the page right after \<^verbatim>\<open>goToSlide(1)\<close>, before the transition ends.\<close>

theorem navigation_is_noop_while_transitioning_witness:
  "isTransitioning (goToSlide (Number 1) carousel3) \<and>
   goToSlide (Number 2) (goToSlide (Number 1) carousel3) = goToSlide (Number 1) carousel3 \<and>
   goToNext (goToSlide (Number 1) carousel3) = goToSlide (Number 1) carousel3 \<and>
   goToPrevious (goToSlide (Number 1) carousel3) = goToSlide (Number 1) carousel3 \<and>
   handleTouchStart 120 (goToSlide (Number 1) carousel3) = goToSlide (Number 1) carousel3"
proof -
  have h: "isTransitioning (goToSlide (Number 1) carousel3)"
    by (simp add: carousel3_eq carousel_defs)
  from navigation_is_noop_while_transitioning [OF h] h show ?thesis by simp
qed

section \<open>Results: analytics client\<close>

subsection \<open>What \<^verbatim>\<open>trackEvent\<close> leaves alone\<close>

lemma trackEvent_keeps [simp]:
  "initialized (trackEvent n p i w) = initialized w"
  "consentGiven (trackEvent n p i w) = consentGiven w"
  "blocked (trackEvent n p i w) = blocked w"
  "loadAttempts (trackEvent n p i w) = loadAttempts w"
  "clock (trackEvent n p i w) = clock w"
  "hasSendBeacon (trackEvent n p i w) = hasSendBeacon w"
  "localStorage (trackEvent n p i w) = localStorage w"
  "scripts (trackEvent n p i w) = scripts w"
  "loadTimeouts (trackEvent n p i w) = loadTimeouts w"
  "retryTimers (trackEvent n p i w) = retryTimers w"
  by (simp_all add: trackEvent_def gtag_def Let_def split: option.splits)

lemma forEach_item_keeps [simp]:
  "initialized (forEach_item q w) = initialized w"
  "consentGiven (forEach_item q w) = consentGiven w"
  "blocked (forEach_item q w) = blocked w"
  "loadAttempts (forEach_item q w) = loadAttempts w"
  "clock (forEach_item q w) = clock w"
  "hasSendBeacon (forEach_item q w) = hasSendBeacon w"
  "localStorage (forEach_item q w) = localStorage w"
  "scripts (forEach_item q w) = scripts w"
  "loadTimeouts (forEach_item q w) = loadTimeouts w"
  "retryTimers (forEach_item q w) = retryTimers w"
  by (induction q arbitrary: w; simp)+

lemma processQueuedEvents_keeps [simp]:
  "initialized (processQueuedEvents w) = initialized w"
  "consentGiven (processQueuedEvents w) = consentGiven w"
  "blocked (processQueuedEvents w) = blocked w"
  "loadAttempts (processQueuedEvents w) = loadAttempts w"
  "clock (processQueuedEvents w) = clock w"
  "hasSendBeacon (processQueuedEvents w) = hasSendBeacon w"
  "localStorage (processQueuedEvents w) = localStorage w"
  "scripts (processQueuedEvents w) = scripts w"
  "loadTimeouts (processQueuedEvents w) = loadTimeouts w"
  "retryTimers (processQueuedEvents w) = retryTimers w"
  by (simp_all add: processQueuedEvents_def Let_def)

subsection \<open>Sending and requeueing\<close>


lemma forEach_item_requeues:
  assumes "\<not> consentGiven w \<or> blocked w"
    and "\<forall>q \<in> set qs. eventName q \<noteq> []"
  shows "forEach_item qs w = w\<lparr>eventQueue := eventQueue w @ map (restamp (clock w)) qs\<rparr>"
  using assms
proof (induction qs arbitrary: w)
  case Nil
  then show ?case by simp
next
  case (Cons q qs)
  let ?w = "trackEvent (eventName q) (eventParams q) False w"
  have step: "?w = w\<lparr>eventQueue := eventQueue w @ [restamp (clock w) q]\<rparr>"
    using Cons.prems by (auto simp add: trackEvent_def Let_def restamp_def)
  have "forEach_item (q # qs) w = forEach_item qs ?w" by simp
  also have "\<dots> = ?w\<lparr>eventQueue := eventQueue ?w @ map (restamp (clock ?w)) qs\<rparr>"
    using Cons.prems by (intro Cons.IH) (auto simp add: step)
  finally show ?case by (simp add: step)
qed


lemma entry_name [simp]: "eventName (entry c) = fst (snd c)"
  by (cases c) (simp add: entry_def)

lemmas analytics_defs =
  CONFIG_def start_def consent_stored_def expired_storage_def init_def getStoredConsent_def
  initializeDataLayer_def loadGtagScript_def script_onerror_def script_onload_def
  load_timeout_def processQueuedEvents_def shouldLoadByDefault_def updateConsent_def
  storeConsent_def gtag_def trackEvent_def Let_def


lemma unstamp_restamp [simp]: "unstamp (restamp t q) = unstamp q"
  by (simp add: unstamp_def restamp_def)

lemma unstamp_call_restamp [simp]:
  "unstamp_call (as_event (restamp t q)) = unstamp_call (as_event q)"
  by (simp add: as_event_def restamp_def)



lemma names_ok_cong: "eventQueue w' = eventQueue w \<Longrightarrow> names_ok w \<Longrightarrow> names_ok w'"
  by (simp add: names_ok_def)






lemma eventQueue_storeConsent [simp]: "eventQueue (storeConsent cfg g w) = eventQueue w"
  by (simp add: storeConsent_def split: local_storage.splits)















text \<open>A script that loads after consent was revoked finds the tracked event in the queue
  and leaves it there.\<close>

lemma late_script_keeps_the_queue:
  "map_option (\<lambda>v. (consentGiven v, map eventName (eventQueue v), dataLayer v))
     (steps CONFIG (revoked_while_loading @ [ScriptLoaded 0])
        (start 0 consent_stored None True))
   = Some (False, [''cta_click''],
           Some [ConsentDefault True, Js 0, Config, ConsentUpdate False])"
  by (simp add: revoked_while_loading_def analytics_defs)


lemma processQueuedEvents_blocked:
  assumes "blocked w" "\<forall>q \<in> set (eventQueue w). eventName q \<noteq> []"
  shows "processQueuedEvents w = w\<lparr>eventQueue := map (restamp (clock w)) (eventQueue w)\<rparr>"
proof (cases "eventQueue w = []")
  case True
  then show ?thesis by (simp add: processQueuedEvents_def)
next
  case False
  have "forEach_item (eventQueue w) (w\<lparr>eventQueue := []\<rparr>)
        = (w\<lparr>eventQueue := []\<rparr>)\<lparr>eventQueue := eventQueue (w\<lparr>eventQueue := []\<rparr>) @
             map (restamp (clock (w\<lparr>eventQueue := []\<rparr>))) (eventQueue w)\<rparr>"
    using assms by (intro forEach_item_requeues) simp_all
  then show ?thesis using False by (simp add: processQueuedEvents_def Let_def)
qed

text \<open>
  Claim C3 says that \<^verbatim>\<open>processQueuedEvents\<close> in the Blocked state leaves the queue
  empty. The code does not: it empties the queue and calls \<^verbatim>\<open>trackEvent\<close> on each
  entry, and \<^verbatim>\<open>trackEvent\<close> puts an event back in the queue whenever the client is
  blocked. In the Blocked state the queue after \<^verbatim>\<open>processQueuedEvents\<close> holds the same
  events in the same order, with new timestamps, and nothing was sent.
\<close>

theorem blocked_queue_is_kept:
  assumes "blocked w" "\<forall>q \<in> set (eventQueue w). eventName q \<noteq> []"
  shows "eventQueue (processQueuedEvents w) = map (restamp (clock w)) (eventQueue w) \<and>
         length (eventQueue (processQueuedEvents w)) = length (eventQueue w) \<and>
         dataLayer (processQueuedEvents w) = dataLayer w \<and>
         beacons (processQueuedEvents w) = beacons w"
  by (simp add: processQueuedEvents_blocked [OF assms])

text \<open>After three failed loads the client is blocked; one event is tracked and queued;
  \<^verbatim>\<open>processQueuedEvents\<close> leaves it in the queue.\<close>

theorem blocked_queue_is_kept_witness:
  "map_option (\<lambda>w. (blocked w, map eventName (eventQueue w)))
     (steps CONFIG tracked_while_blocked (start 0 consent_stored None True))
     = Some (True, [''cta_click'']) \<and>
   map_option (\<lambda>w. map eventName (eventQueue (processQueuedEvents w)))
     (steps CONFIG tracked_while_blocked (start 0 consent_stored None True))
     = Some [''cta_click'']"
proof -
  obtain w where w: "steps CONFIG tracked_while_blocked (start 0 consent_stored None True) = Some w"
    by (simp add: tracked_while_blocked_def three_failures_def analytics_defs)
  have b: "blocked w" and q: "map eventName (eventQueue w) = [''cta_click'']"
    using w by (auto simp add: tracked_while_blocked_def three_failures_def analytics_defs)
  have n: "\<forall>q \<in> set (eventQueue w). eventName q \<noteq> []"
    using w by (auto simp add: tracked_while_blocked_def three_failures_def analytics_defs)
  from blocked_queue_is_kept [OF b n]
  have "eventQueue (processQueuedEvents w) = map (restamp (clock w)) (eventQueue w)"
    by blast
  then have "map eventName (eventQueue (processQueuedEvents w)) = map eventName (eventQueue w)"
    by (simp add: restamp_def comp_def)
  with w b q show ?thesis by simp
qed

subsection \<open>The script loader\<close>

lemma loader_inv_start: "loader_inv cfg (start t ls dl sb)"
  by (simp add: loader_inv_def start_def)

lemma loader_inv_cong:
  "loadAttempts w' = loadAttempts w \<Longrightarrow> scripts w' = scripts w \<Longrightarrow>
   loadTimeouts w' = loadTimeouts w \<Longrightarrow> retryTimers w' = retryTimers w \<Longrightarrow>
   loader_inv cfg w \<Longrightarrow> loader_inv cfg w'"
  by (simp add: loader_inv_def)

lemma loader_inv_loadGtagScript: "loader_inv cfg w \<Longrightarrow> loader_inv cfg (loadGtagScript cfg w)"
  by (auto simp: loader_inv_def loadGtagScript_def)

lemma loader_inv_script_onerror:
  "loader_inv cfg w \<Longrightarrow> 0 < loadAttempts w \<Longrightarrow> loader_inv cfg (script_onerror cfg w)"
  by (cases "scripts w")
     (auto simp: loader_inv_def script_onerror_def intro!: image_eqI [where x = "length (scripts w)"])

lemma loader_inv_init: "loader_inv cfg w \<Longrightarrow> loader_inv cfg (init cfg w)"
proof -
  assume a: "loader_inv cfg w"
  obtain r w1 where g: "getStoredConsent w = (r, w1)" by (cases "getStoredConsent w")
  have "loader_inv cfg w1"
    using g a by (auto simp: getStoredConsent_def loader_inv_def split: local_storage.splits option.splits stored.splits if_splits)
  then have "loader_inv cfg (initializeDataLayer (case r of None \<Rightarrow> w1 | Some c \<Rightarrow> w1\<lparr>consentGiven := c\<rparr>))"
    by (auto simp: initializeDataLayer_def loader_inv_def Let_def split: option.splits)
  then show ?thesis
    using a by (auto simp: init_def g Let_def loader_inv_loadGtagScript intro: loader_inv_cong)
qed

lemma loader_inv_updateConsent:
  "loader_inv cfg w \<Longrightarrow> loader_inv cfg (snd (updateConsent cfg granted w))"
proof -
  assume a: "loader_inv cfg w"
  let ?w1 = "storeConsent cfg granted (w\<lparr>consentGiven := granted\<rparr>)"
  have w1: "loader_inv cfg ?w1"
    using a by (auto simp: storeConsent_def loader_inv_def split: local_storage.splits)
  show ?thesis
  proof (cases "gtag (ConsentUpdate granted) ?w1")
    case None
    then show ?thesis using w1 by (simp add: updateConsent_def Let_def)
  next
    case (Some w2)
    have "loader_inv cfg w2"
      using Some w1 by (auto simp: gtag_def loader_inv_def split: option.splits)
    then show ?thesis using Some
      by (auto simp: updateConsent_def Let_def loader_inv_loadGtagScript intro: loader_inv_cong)
  qed
qed

lemma set_remove_nth: "set (take k xs @ drop (Suc k) xs) \<subseteq> set xs"
  by (auto dest: in_set_takeD in_set_dropD)

lemma loader_inv_step:
  assumes "loader_inv cfg w" "step cfg e w = Some w'"
  shows "loader_inv cfg w'"
proof (cases e)
  case Init
  then show ?thesis using assms by (auto simp: loader_inv_init)
next
  case (TrackEvent n p i)
  then show ?thesis using assms by (auto intro: loader_inv_cong)
next
  case (UpdateConsent g)
  then show ?thesis using assms by (auto simp: loader_inv_updateConsent)
next
  case (Advance t)
  then show ?thesis using assms by (auto simp: loader_inv_def)
next
  case (ScriptLoaded i)
  then show ?thesis using assms
    by (auto simp: loader_inv_def script_onload_def split: if_splits)
next
  case (ScriptFailed i)
  have "loader_inv cfg (w\<lparr>scripts := (scripts w)[i := Failed]\<rparr>)"
    using assms(1) by (simp add: loader_inv_def)
  moreover have "0 < loadAttempts w" if "i < length (scripts w)"
    using that assms(1) by (cases "scripts w") (simp_all add: loader_inv_def)
  ultimately show ?thesis using assms(2) ScriptFailed
    by (auto split: if_splits intro!: loader_inv_script_onerror)
next
  case (LoadTimeout i)
  have "loader_inv cfg (w\<lparr>loadTimeouts := (loadTimeouts w)[i := False]\<rparr>)"
    using assms(1) by (simp add: loader_inv_def)
  moreover have "0 < loadAttempts w" if "i < length (loadTimeouts w)"
    using that assms(1) by (cases "scripts w") (simp_all add: loader_inv_def)
  ultimately show ?thesis using assms(2) LoadTimeout
    by (auto simp: load_timeout_def split: if_splits intro!: loader_inv_script_onerror)
next
  case (RetryTimer k)
  have "loader_inv cfg (w\<lparr>retryTimers := take k (retryTimers w) @ drop (Suc k) (retryTimers w)\<rparr>)"
    using assms(1) set_remove_nth [of k "retryTimers w"]
    by (auto simp: loader_inv_def list_all_iff)
  then show ?thesis using assms(2) RetryTimer
    by (auto split: if_splits intro!: loader_inv_loadGtagScript)
qed

lemma loader_inv_steps:
  "loader_inv cfg w \<Longrightarrow> steps cfg tr w = Some w' \<Longrightarrow> loader_inv cfg w'"
  by (induction tr arbitrary: w) (auto split: option.splits dest: loader_inv_step)

lemma scripts_grow_loadGtagScript: "length (scripts w) \<le> length (scripts (loadGtagScript cfg w))"
  by (simp add: loadGtagScript_def)

lemma scripts_script_onerror [simp]: "scripts (script_onerror cfg w) = scripts w"
  by (simp add: script_onerror_def)

lemma scripts_grow_init: "length (scripts w) \<le> length (scripts (init cfg w))"
proof -
  obtain r w1 where g: "getStoredConsent w = (r, w1)" by (cases "getStoredConsent w")
  have "scripts w1 = scripts w"
    using g by (auto simp: getStoredConsent_def split: local_storage.splits option.splits stored.splits if_splits)
  then have "scripts (initializeDataLayer (case r of None \<Rightarrow> w1 | Some c \<Rightarrow> w1\<lparr>consentGiven := c\<rparr>)) = scripts w"
    by (auto simp: initializeDataLayer_def Let_def split: option.splits)
  then show ?thesis
    using scripts_grow_loadGtagScript [of "initializeDataLayer (case r of None \<Rightarrow> w1 | Some c \<Rightarrow> w1\<lparr>consentGiven := c\<rparr>)" cfg]
    by (auto simp: init_def g Let_def)
qed

lemma scripts_grow_updateConsent:
  "length (scripts w) \<le> length (scripts (snd (updateConsent cfg granted w)))"
proof -
  let ?w1 = "storeConsent cfg granted (w\<lparr>consentGiven := granted\<rparr>)"
  have w1: "scripts ?w1 = scripts w"
    by (auto simp: storeConsent_def split: local_storage.splits)
  show ?thesis
  proof (cases "gtag (ConsentUpdate granted) ?w1")
    case None
    then show ?thesis using w1 by (simp add: updateConsent_def Let_def)
  next
    case (Some w2)
    have "scripts w2 = scripts w"
      using Some w1 by (auto simp: gtag_def split: option.splits)
    then show ?thesis using Some scripts_grow_loadGtagScript [of w2 cfg]
      by (auto simp: updateConsent_def Let_def)
  qed
qed

lemma scripts_grow_step:
  assumes "step cfg e w = Some w'"
  shows "length (scripts w) \<le> length (scripts w')"
proof (cases e)
  case Init
  then show ?thesis using assms scripts_grow_init [of w cfg] by auto
next
  case (UpdateConsent g)
  then show ?thesis using assms scripts_grow_updateConsent [of w cfg g] by auto
next
  case (RetryTimer k)
  then show ?thesis using assms
      scripts_grow_loadGtagScript [of "w\<lparr>retryTimers := take k (retryTimers w) @ drop (Suc k) (retryTimers w)\<rparr>" cfg]
    by (auto split: if_splits)
qed (use assms in \<open>auto simp: script_onload_def load_timeout_def split: if_splits\<close>)

lemma scripts_grow_steps:
  "steps cfg tr w = Some w' \<Longrightarrow> length (scripts w) \<le> length (scripts w')"
  by (induction tr arbitrary: w) (auto split: option.splits dest!: scripts_grow_step intro: order_trans)

lemma blocked_loadGtagScript: "blocked w \<Longrightarrow> blocked (loadGtagScript cfg w)"
  by (simp add: loadGtagScript_def)

lemma blocked_script_onerror: "blocked w \<Longrightarrow> blocked (script_onerror cfg w)"
  by (simp add: script_onerror_def)

lemma blocked_init: "blocked w \<Longrightarrow> blocked (init cfg w)"
proof -
  assume a: "blocked w"
  obtain r w1 where g: "getStoredConsent w = (r, w1)" by (cases "getStoredConsent w")
  have "blocked w1"
    using g a by (auto simp: getStoredConsent_def split: local_storage.splits option.splits stored.splits if_splits)
  then have "blocked (initializeDataLayer (case r of None \<Rightarrow> w1 | Some c \<Rightarrow> w1\<lparr>consentGiven := c\<rparr>))"
    by (auto simp: initializeDataLayer_def Let_def split: option.splits)
  then show ?thesis
    using a by (auto simp: init_def g Let_def blocked_loadGtagScript)
qed

lemma blocked_updateConsent: "blocked w \<Longrightarrow> blocked (snd (updateConsent cfg granted w))"
proof -
  assume a: "blocked w"
  let ?w1 = "storeConsent cfg granted (w\<lparr>consentGiven := granted\<rparr>)"
  have w1: "blocked ?w1"
    using a by (auto simp: storeConsent_def split: local_storage.splits)
  show ?thesis
  proof (cases "gtag (ConsentUpdate granted) ?w1")
    case None
    then show ?thesis using w1 by (simp add: updateConsent_def Let_def)
  next
    case (Some w2)
    have "blocked w2"
      using Some w1 by (auto simp: gtag_def split: option.splits)
    then show ?thesis using Some
      by (auto simp: updateConsent_def Let_def blocked_loadGtagScript)
  qed
qed

lemma blocked_step:
  assumes "blocked w" "step cfg e w = Some w'" "\<forall>i. e \<noteq> ScriptLoaded i"
  shows "blocked w'"
proof (cases e)
  case Init
  then show ?thesis using assms by (auto simp: blocked_init)
next
  case (UpdateConsent g)
  then show ?thesis using assms by (auto simp: blocked_updateConsent)
next
  case (ScriptLoaded i)
  then show ?thesis using assms by simp
qed (use assms in \<open>auto simp: load_timeout_def blocked_script_onerror blocked_loadGtagScript split: if_splits\<close>)


lemma script_onerror_schedules:
  "loadAttempts w < retryAttempts cfg \<Longrightarrow>
   script_onerror cfg w = w\<lparr>retryTimers := retryTimers w @ [retryDelay cfg * loadAttempts w]\<rparr>"
  by (simp add: script_onerror_def)

lemma script_onerror_blocks:
  "retryAttempts cfg \<le> loadAttempts w \<Longrightarrow> blocked (script_onerror cfg w)"
  by (simp add: script_onerror_def)

text \<open>
  Claim C5, as amended. In every state \<open>w\<close> the module can reach from its start, by any
  sequence of API calls and browser callbacks: the script elements appended so far are
  as many as \<^verbatim>\<open>loadAttempts\<close> says, and at most \<^verbatim>\<open>retryAttempts\<close>; when a script
  fails, or times out on a client that is not blocked, while attempts remain, one retry
  timer is set, with the delay \<^verbatim>\<open>retryDelay\<close> times the number of attempts made so
  far; when a script fails with no attempt left,
  the client becomes blocked and no timer is set; once \<^verbatim>\<open>loadAttempts\<close> has reached
  \<^verbatim>\<open>retryAttempts\<close>, no sequence of further events appends a script or changes the
  counter; and a blocked client stays blocked under every event except the load event of
  a script, which clears the flag.
\<close>

theorem script_load_attempts_are_bounded:
  assumes run: "steps cfg tr (start t ls dl sb) = Some w"
  shows "loadAttempts w = length (scripts w) \<and>
         length (scripts w) \<le> retryAttempts cfg \<and>
         (\<forall>i w'. loadAttempts w < retryAttempts cfg \<and> step cfg (ScriptFailed i) w = Some w' \<longrightarrow>
            retryTimers w' = retryTimers w @ [retryDelay cfg * loadAttempts w] \<and>
            scripts w' = (scripts w)[i := Failed]) \<and>
         (\<forall>i w'. loadAttempts w < retryAttempts cfg \<and> \<not> blocked w \<and>
                 step cfg (LoadTimeout i) w = Some w' \<longrightarrow>
            retryTimers w' = retryTimers w @ [retryDelay cfg * loadAttempts w] \<and>
            scripts w' = scripts w) \<and>
         (\<forall>i w'. retryAttempts cfg \<le> loadAttempts w \<and> step cfg (ScriptFailed i) w = Some w' \<longrightarrow>
            blocked w' \<and> retryTimers w' = retryTimers w) \<and>
         (\<forall>tr' w'. retryAttempts cfg \<le> loadAttempts w \<and> steps cfg tr' w = Some w' \<longrightarrow>
            length (scripts w') = length (scripts w) \<and> loadAttempts w' = loadAttempts w) \<and>
         (\<forall>e w'. blocked w \<and> step cfg e w = Some w' \<and> (\<forall>i. e \<noteq> ScriptLoaded i) \<longrightarrow> blocked w')"
proof -
  have inv: "loader_inv cfg w"
    using loader_inv_steps [OF loader_inv_start run] .
  have a: "loadAttempts w = length (scripts w)" and b: "length (scripts w) \<le> retryAttempts cfg"
    using inv by (simp_all add: loader_inv_def)
  have c: "retryTimers w' = retryTimers w @ [retryDelay cfg * loadAttempts w] \<and>
           scripts w' = (scripts w)[i := Failed]"
    if "loadAttempts w < retryAttempts cfg" "step cfg (ScriptFailed i) w = Some w'" for i w'
    using that by (auto simp: script_onerror_schedules split: if_splits)
  have c': "retryTimers w' = retryTimers w @ [retryDelay cfg * loadAttempts w] \<and>
            scripts w' = scripts w"
    if "loadAttempts w < retryAttempts cfg" "\<not> blocked w"
      "step cfg (LoadTimeout i) w = Some w'" for i w'
    using that by (auto simp: load_timeout_def script_onerror_schedules split: if_splits)
  have d: "blocked w' \<and> retryTimers w' = retryTimers w"
    if "retryAttempts cfg \<le> loadAttempts w" "step cfg (ScriptFailed i) w = Some w'" for i w'
    using that by (auto simp: script_onerror_def split: if_splits)
  have e: "length (scripts w') = length (scripts w) \<and> loadAttempts w' = loadAttempts w"
    if full: "retryAttempts cfg \<le> loadAttempts w" and more: "steps cfg tr' w = Some w'" for tr' w'
  proof -
    have inv': "loader_inv cfg w'" using loader_inv_steps [OF inv more] .
    have "length (scripts w) \<le> length (scripts w')" using scripts_grow_steps [OF more] .
    moreover have "length (scripts w') \<le> retryAttempts cfg" using inv' by (simp add: loader_inv_def)
    ultimately have "length (scripts w') = length (scripts w)" using full a by linarith
    then show ?thesis using inv' a by (simp add: loader_inv_def)
  qed
  have f: "blocked w'"
    if "blocked w" "step cfg e w = Some w'" "\<forall>i. e \<noteq> ScriptLoaded i" for e w'
    using that by (rule blocked_step)
  show ?thesis using a b c c' d e f by blast
qed

text \<open>Three loads that fail at once: the retries are set 1000 and 2000 milliseconds
  ahead, and the third failure blocks the client.\<close>

theorem script_load_attempts_are_bounded_witness:
  "map_option (\<lambda>w. (loadAttempts w, scripts w, blocked w))
     (steps CONFIG three_failures (start 0 consent_stored None True))
   = Some (3, [Failed, Failed, Failed], True) \<and>
   map_option retryTimers (steps CONFIG (take 2 three_failures) (start 0 consent_stored None True))
   = Some [1000] \<and>
   map_option retryTimers (steps CONFIG (take 4 three_failures) (start 0 consent_stored None True))
   = Some [2000]"
proof -
  obtain w where w: "steps CONFIG three_failures (start 0 consent_stored None True) = Some w"
    by (simp add: three_failures_def analytics_defs)
  have v: "(loadAttempts w, scripts w, blocked w) = (3, [Failed, Failed, Failed], True)"
    using w by (auto simp add: three_failures_def analytics_defs)
  from script_load_attempts_are_bounded [OF w] have "loadAttempts w = length (scripts w)" by blast
  with v w show ?thesis by (simp add: three_failures_def analytics_defs)
qed

text \<open>
  Claim C5 as stated says that the client, once blocked, is blocked for good. The first
  script is still loading when its timeout starts the retries; the two retries fail and
  the client is blocked with all three attempts used; then the first script loads after
  all, and its load handler clears the flag.
\<close>

theorem late_load_clears_blocked:
  "map_option blocked (steps CONFIG late_load (start 0 consent_stored None True)) = Some True \<and>
   map_option loadAttempts (steps CONFIG late_load (start 0 consent_stored None True))
     = Some (retryAttempts CONFIG) \<and>
   map_option blocked
     (steps CONFIG (late_load @ [ScriptLoaded 0]) (start 0 consent_stored None True))
     = Some False"
  by (simp add: late_load_def analytics_defs)

subsection \<open>Stored consent\<close>

text \<open>
  Claim C6. Before \<^verbatim>\<open>init\<close> has run, a stored record whose expiry is not after the
  current time and no stored record at all give the same: \<^verbatim>\<open>getStoredConsent\<close> returns
  null and leaves the storage empty in both cases, and \<^verbatim>\<open>init\<close> ends in the same
  state.
\<close>

theorem expired_consent_is_no_consent:
  assumes "expiry \<le> clock w" "\<not> initialized w"
  shows "getStoredConsent (w\<lparr>localStorage := Stored (Some (ConsentRecord consent (Some expiry)))\<rparr>)
           = (None, w\<lparr>localStorage := Stored None\<rparr>) \<and>
         getStoredConsent (w\<lparr>localStorage := Stored None\<rparr>)
           = (None, w\<lparr>localStorage := Stored None\<rparr>) \<and>
         init cfg (w\<lparr>localStorage := Stored (Some (ConsentRecord consent (Some expiry)))\<rparr>)
           = init cfg (w\<lparr>localStorage := Stored None\<rparr>)"
proof -
  let ?old = "w\<lparr>localStorage := Stored (Some (ConsentRecord consent (Some expiry)))\<rparr>"
  let ?none = "w\<lparr>localStorage := Stored None\<rparr>"
  have a: "getStoredConsent ?old = (None, ?none)"
    using assms by (simp add: getStoredConsent_def)
  have b: "getStoredConsent ?none = (None, ?none)"
    by (simp add: getStoredConsent_def)
  have "init cfg ?old = init cfg ?none"
    using assms(2) by (simp add: init_def a b)
  with a b show ?thesis by simp
qed

text \<open>At time 2000, a consent that expired at time 1000: consent is not given and no
  script is loaded, as on a page that stored nothing.\<close>

theorem expired_consent_is_no_consent_witness:
  "(1000::int) \<le> clock (start 2000 expired_storage None True) \<and>
   initialized (start 2000 expired_storage None True) = False \<and>
   fst (getStoredConsent (start 2000 expired_storage None True)) = None \<and>
   fst (getStoredConsent (start 2000 (Stored None) None True)) = None \<and>
   init CONFIG (start 2000 expired_storage None True)
     = init CONFIG (start 2000 (Stored None) None True) \<and>
   consentGiven (init CONFIG (start 2000 expired_storage None True)) = False \<and>
   scripts (init CONFIG (start 2000 expired_storage None True)) = []"
proof -
  let ?w = "start 2000 expired_storage None True"
  have h: "(1000::int) \<le> clock ?w" "\<not> initialized ?w" by (simp_all add: start_def)
  have e: "?w\<lparr>localStorage := Stored (Some (ConsentRecord True (Some 1000)))\<rparr> = ?w"
    "?w\<lparr>localStorage := Stored None\<rparr> = start 2000 (Stored None) None True"
    by (simp_all add: start_def expired_storage_def)
  from expired_consent_is_no_consent [OF h, of True CONFIG] h show ?thesis
    unfolding e
    by (simp add: start_def getStoredConsent_def init_def initializeDataLayer_def shouldLoadByDefault_def)
qed

section \<open>Results: lazy image loader\<close>

lemma backoff_Suc: "backoff cfg (Suc n) = backoff cfg n @ [imageRetryDelay cfg * 2 ^ n]"
  by (simp add: backoff_def)

lemma unprocessed_single_chain: "unprocessed url img \<Longrightarrow> single_chain cfg url img"
  by (simp add: unprocessed_def single_chain_def not_started_def backoff_def)

lemmas chain_states =
  not_started_def load_in_flight_def timer_pending_def shown_def given_up_def

lemma processImage_chain:
  assumes "single_chain cfg url img" "inflight img = []"
  shows "single_chain cfg url (processImage img)"
proof -
  from assms have url: "url \<noteq> []"
    and d: "delays img = backoff cfg (min (failures img) (maxRetries cfg))"
    and s: "not_started url img \<or> shown cfg url img \<or> given_up cfg img"
    by (auto simp: single_chain_def load_in_flight_def timer_pending_def)
  from s consider (a) "not_started url img" | (b) "data_src img = None"
    by (auto simp: shown_def given_up_def)
  then show ?thesis
  proof cases
    case a
    show ?thesis
    proof (cases "loadingImages img")
      case True
      then show ?thesis using assms by (simp add: processImage_def)
    next
      case False
      then have p: "processImage img =
          img\<lparr>loadingImages := True, aria_busy := True, requests := 1,
              inflight := [Preloading url 0]\<rparr>"
        using a url
        by (simp add: processImage_def loadImageWithRetry_def retries_def not_started_def)
      have "load_in_flight cfg url (processImage img)"
        unfolding p using a by (simp add: load_in_flight_def not_started_def)
      moreover have "delays (processImage img)
          = backoff cfg (min (failures (processImage img)) (maxRetries cfg))"
        unfolding p using d by simp
      ultimately show ?thesis using url by (simp add: single_chain_def)
    qed
  next
    case b
    then show ?thesis using assms by (simp add: processImage_def)
  qed
qed

lemma chain_preloading:
  assumes "single_chain cfg url img" "k < length (inflight img)"
    "inflight img ! k = Preloading u c"
  shows "load_in_flight cfg url img \<and> k = 0 \<and> u = url \<and> c = failures img"
proof -
  from assms(1) consider "inflight img = []" | "load_in_flight cfg url img"
    | "inflight img = [Delaying url (failures img - 1)]"
    by (auto simp: single_chain_def chain_states)
  then show ?thesis
  proof cases
    case 1
    then show ?thesis using assms(2) by simp
  next
    case 2
    then have "inflight img = [Preloading url (failures img)]" by (simp add: load_in_flight_def)
    then show ?thesis using assms(2,3) 2 by simp
  next
    case 3
    then show ?thesis using assms(2,3) by simp
  qed
qed

lemma chain_delaying:
  assumes "single_chain cfg url img" "k < length (inflight img)"
    "inflight img ! k = Delaying u c"
  shows "timer_pending cfg url img \<and> k = 0 \<and> u = url \<and> c = failures img - 1"
proof -
  from assms(1) consider "inflight img = []" | "timer_pending cfg url img"
    | "inflight img = [Preloading url (failures img)]"
    by (auto simp: single_chain_def chain_states)
  then show ?thesis
  proof cases
    case 1
    then show ?thesis using assms(2) by simp
  next
    case 2
    then have "inflight img = [Delaying url (failures img - 1)]"
      by (simp add: timer_pending_def)
    then show ?thesis using assms(2,3) 2 by simp
  next
    case 3
    then show ?thesis using assms(2,3) by simp
  qed
qed

lemma resolved_chain:
  assumes inv: "single_chain cfg url img" and f: "load_in_flight cfg url img"
  shows "single_chain cfg url (preload_resolved cfg url (resume 0 img))"
proof -
  let ?r = "preload_resolved cfg url (resume 0 img)"
  have r: "inflight ?r = []" "\<not> errorClass ?r" "loadedClass ?r" "data_src ?r = None"
    "src ?r = Url url" "failures ?r = failures img" "requests ?r = requests img"
    "delays ?r = delays img"
    using f
    by (simp_all add: preload_resolved_def image_loaded_def resume_def Let_def
          load_in_flight_def)
  have "shown cfg url ?r" using f r by (simp add: shown_def load_in_flight_def)
  then show ?thesis using inv r by (simp add: single_chain_def)
qed

lemma rejected_chain:
  assumes inv: "single_chain cfg url img" and f: "load_in_flight cfg url img"
  shows "single_chain cfg url
           (preload_rejected cfg url (failures img)
              (resume 0 (img\<lparr>failures := failures img + 1\<rparr>)))"
proof (cases "failures img < maxRetries cfg")
  case True
  let ?r = "preload_rejected cfg url (failures img)
              (resume 0 (img\<lparr>failures := failures img + 1\<rparr>))"
  have r: "inflight ?r = [Delaying url (failures img)]" "errorClass ?r = errorClass img"
    "loadedClass ?r = loadedClass img" "data_src ?r = data_src img"
    "failures ?r = failures img + 1" "requests ?r = requests img"
    "retryCount ?r = Some (failures img + 1)"
    "delays ?r = delays img @ [imageRetryDelay cfg * 2 ^ failures img]"
    using f True
    by (simp_all add: preload_rejected_def resume_def load_in_flight_def)
  have "timer_pending cfg url ?r"
    using f True r by (simp add: timer_pending_def load_in_flight_def)
  moreover have "delays ?r = backoff cfg (min (failures ?r) (maxRetries cfg))"
  proof -
    have "delays img = backoff cfg (failures img)"
      using inv True by (simp add: single_chain_def min_def)
    moreover have "min (failures img + 1) (maxRetries cfg) = Suc (failures img)"
      using True by simp
    ultimately show ?thesis using r by (simp add: backoff_Suc)
  qed
  ultimately show ?thesis using inv by (simp add: single_chain_def)
next
  case False
  then have last: "failures img = maxRetries cfg" using f by (simp add: load_in_flight_def)
  let ?r = "preload_rejected cfg url (failures img)
              (resume 0 (img\<lparr>failures := failures img + 1\<rparr>))"
  have r: "inflight ?r = []" "errorClass ?r" "\<not> placeholderClass ?r" "data_src ?r = None"
    "src ?r = ErrorImage" "failures ?r = failures img + 1" "requests ?r = requests img"
    "delays ?r = delays img"
    using f False
    by (simp_all add: preload_rejected_def handleImageError_def resume_def load_in_flight_def)
  have "given_up cfg ?r"
    using f last r by (simp add: given_up_def load_in_flight_def)
  moreover have "delays ?r = backoff cfg (min (failures ?r) (maxRetries cfg))"
    using inv last r by (simp add: single_chain_def)
  ultimately show ?thesis using inv by (simp add: single_chain_def)
qed

lemma elapsed_chain:
  assumes inv: "single_chain cfg url img" and t: "timer_pending cfg url img"
  shows "single_chain cfg url (delay_elapsed url (resume 0 img))"
    and "requests (delay_elapsed url (resume 0 img)) = failures img + 1"
proof -
  let ?r = "delay_elapsed url (resume 0 img)"
  have r: "inflight ?r = [Preloading url (failures img)]" "errorClass ?r = errorClass img"
    "loadedClass ?r = loadedClass img" "data_src ?r = data_src img"
    "failures ?r = failures img" "requests ?r = requests img + 1"
    "delays ?r = delays img"
    using t
    by (simp_all add: delay_elapsed_def loadImageWithRetry_def retries_def resume_def
          timer_pending_def)
  have "load_in_flight cfg url ?r"
    using t r by (simp add: load_in_flight_def timer_pending_def)
  then show "single_chain cfg url ?r" using inv r by (simp add: single_chain_def)
  show "requests ?r = failures img + 1" using t r by (simp add: timer_pending_def)
qed

lemma quiet_chain:
  assumes inv: "single_chain cfg url img"
    and same: "inflight img' = inflight img" "errorClass img' = errorClass img"
      "loadedClass img' = loadedClass img" "data_src img' = data_src img"
      "failures img' = failures img" "requests img' = requests img"
      "delays img' = delays img"
    and rest: "data_src img = None \<longrightarrow> src img' = src img \<and> placeholderClass img' = placeholderClass img"
      "inflight img = [] \<or> retryCount img' = retryCount img"
      "retryCount img = None \<longrightarrow> retryCount img' = None"
  shows "single_chain cfg url img'"
proof -
  from inv have url: "url \<noteq> []"
    and d: "delays img = backoff cfg (min (failures img) (maxRetries cfg))"
    by (simp_all add: single_chain_def)
  from inv consider (a) "not_started url img" | (b) "load_in_flight cfg url img"
    | (c) "timer_pending cfg url img" | (d) "shown cfg url img" | (e) "given_up cfg img"
    by (auto simp: single_chain_def)
  then have "not_started url img' \<or> load_in_flight cfg url img' \<or> timer_pending cfg url img' \<or>
      shown cfg url img' \<or> given_up cfg img'"
  proof cases
    case a
    then have "not_started url img'" using same rest(3) by (simp add: not_started_def)
    then show ?thesis by simp
  next
    case b
    then have "load_in_flight cfg url img'" using same by (simp add: load_in_flight_def)
    then show ?thesis by simp
  next
    case c
    then have "timer_pending cfg url img'" using same rest(2) by (simp add: timer_pending_def)
    then show ?thesis by simp
  next
    case d
    then have "shown cfg url img'" using same rest(1) by (simp add: shown_def)
    then show ?thesis by simp
  next
    case e
    then have "given_up cfg img'" using same rest(1) by (simp add: given_up_def)
    then show ?thesis by simp
  qed
  then show ?thesis using url d same by (simp add: single_chain_def)
qed

lemma single_chain_step:
  assumes inv: "single_chain cfg url img"
    and once: "inflight img = [] \<or> (e \<noteq> ProcessImage \<and> e \<noteq> Cleanup)"
    and step: "loader_step cfg e img = Some img'"
  shows "single_chain cfg url img'"
proof (cases e)
  case ProcessImage
  then have idle: "inflight img = []" using once by simp
  have img': "img' = processImage img" using step ProcessImage by simp
  show ?thesis unfolding img' using inv idle by (rule processImage_chain)
next
  case (PreloadResolved k)
  from step PreloadResolved obtain u c where k: "k < length (inflight img)"
    and p: "inflight img ! k = Preloading u c"
    and img': "img' = preload_resolved cfg u (resume k img)"
    by (auto split: if_splits suspended.splits)
  from chain_preloading [OF inv k p]
  have f: "load_in_flight cfg url img" and e: "k = 0" "u = url" by simp_all
  show ?thesis unfolding img' e by (rule resolved_chain [OF inv f])
next
  case (PreloadRejected k)
  from step PreloadRejected obtain u c where k: "k < length (inflight img)"
    and p: "inflight img ! k = Preloading u c"
    and img': "img' = preload_rejected cfg u c (resume k (img\<lparr>failures := failures img + 1\<rparr>))"
    by (auto split: if_splits suspended.splits)
  from chain_preloading [OF inv k p]
  have f: "load_in_flight cfg url img" and e: "k = 0" "u = url" "c = failures img"
    by simp_all
  show ?thesis unfolding img' e by (rule rejected_chain [OF inv f])
next
  case (DelayElapsed k)
  from step DelayElapsed obtain u c where k: "k < length (inflight img)"
    and p: "inflight img ! k = Delaying u c"
    and img': "img' = delay_elapsed u (resume k img)"
    by (auto split: if_splits suspended.splits)
  from chain_delaying [OF inv k p]
  have t: "timer_pending cfg url img" and e: "k = 0" "u = url" by simp_all
  show ?thesis unfolding img' e by (rule elapsed_chain [OF inv t])
next
  case Cleanup
  then have idle: "inflight img = []" using once by simp
  have img': "img' = cleanup img" using step Cleanup by simp
  show ?thesis unfolding img' using inv
    by (rule quiet_chain) (simp_all add: cleanup_def idle)
next
  case ObserveImages
  then have img': "img' = observeImages img" using step by simp
  show ?thesis unfolding img' using inv
    by (rule quiet_chain) (simp_all add: observeImages_def)
next
  case (MotionChange reduce)
  then have img': "img' = img\<lparr>prefersReducedMotion := reduce\<rparr>" using step by simp
  show ?thesis unfolding img' using inv by (rule quiet_chain) simp_all
qed

lemma single_chain_steps:
  "single_chain cfg url img \<Longrightarrow> loads_once cfg es img \<Longrightarrow>
   loader_steps cfg es img = Some img' \<Longrightarrow> single_chain cfg url img'"
proof (induction es arbitrary: img)
  case Nil
  then show ?case by simp
next
  case (Cons e es)
  from Cons.prems(3) obtain img1 where s: "loader_step cfg e img = Some img1"
    and r: "loader_steps cfg es img1 = Some img'"
    by (auto split: option.splits)
  have o: "inflight img = [] \<or> (e \<noteq> ProcessImage \<and> e \<noteq> Cleanup)"
    and l: "loads_once cfg es img1"
    using Cons.prems(2) s by simp_all
  from single_chain_step [OF Cons.prems(1) o s] l r show ?case by (rule Cons.IH)
qed

text \<open>Once an image has no \<^verbatim>\<open>data-src\<close> and no suspended call, nothing that can happen
  starts a load or changes what it shows.\<close>

lemma settled_step:
  assumes "data_src img = None" "inflight img = []" "loader_step cfg e img = Some img'"
  shows "data_src img' = None \<and> inflight img' = [] \<and> requests img' = requests img \<and>
         failures img' = failures img \<and> src img' = src img \<and>
         errorClass img' = errorClass img \<and> loadedClass img' = loadedClass img"
proof (cases e)
  case ProcessImage
  then show ?thesis using assms by (simp add: processImage_def)
next
  case Cleanup
  then show ?thesis using assms by (auto simp: cleanup_def)
next
  case ObserveImages
  then show ?thesis using assms by (simp add: observeImages_def)
next
  case (MotionChange reduce)
  then show ?thesis using assms by auto
qed (use assms in simp_all)

lemma settled_steps:
  "data_src img = None \<Longrightarrow> inflight img = [] \<Longrightarrow> loader_steps cfg es img = Some img' \<Longrightarrow>
   data_src img' = None \<and> inflight img' = [] \<and> requests img' = requests img \<and>
   failures img' = failures img \<and> src img' = src img \<and>
   errorClass img' = errorClass img \<and> loadedClass img' = loadedClass img"
proof (induction es arbitrary: img)
  case Nil
  then show ?case by simp
next
  case (Cons e es)
  from Cons.prems(3) obtain img1 where s: "loader_step cfg e img = Some img1"
    and r: "loader_steps cfg es img1 = Some img'"
    by (auto split: option.splits)
  note one = settled_step [OF Cons.prems(1,2) s]
  from one have "data_src img1 = None" "inflight img1 = []" by simp_all
  from Cons.IH [OF this r] one show ?case by simp
qed

lemma loader_steps_append:
  "loader_steps cfg (xs @ ys) img =
     (case loader_steps cfg xs img of None \<Rightarrow> None | Some img' \<Rightarrow> loader_steps cfg ys img')"
  by (induction xs arbitrary: img) (simp_all split: option.splits)

lemmas lazy_defs =
  LAZY_CONFIG_def lazy_image_def three_failed_loads_def four_failed_loads_def
  processed_twice_def processImage_def loadImageWithRetry_def preload_resolved_def
  preload_rejected_def delay_elapsed_def image_loaded_def handleImageError_def
  observeImages_def cleanup_def resume_def retries_def Let_def

text \<open>
  Claim C4, as the code has it. Let \<open>N\<close> be \<^verbatim>\<open>maxRetries\<close>. Take an image the loader has
  not touched and any run that loads it once, that is, in which \<^verbatim>\<open>processImage\<close> and
  \<^verbatim>\<open>cleanup\<close> are not called while a load or a retry timer of the image is pending.
  At every point of the run at most \<open>N + 1\<close> loads have been started and have failed,
  and the waits started so far are \<^verbatim>\<open>retryDelay\<close> times 1, 2, 4, ..., one for each
  failure but the last. The element is in the error state exactly when \<open>N + 1\<close> loads
  have failed (the first load and \<open>N\<close> retries). It then shows the error image, has no
  placeholder class and no \<^verbatim>\<open>data-src\<close>, no call is suspended, and whatever happens
  later, in a run of any kind, no load is started and the element stays in the error
  state. After \<open>k\<close> failures with \<open>1 \<le> k \<le> N\<close> the element is not in the error state:
  the next load is in flight, or its timer is pending and starts it when it fires, or that
  load has succeeded and the image is shown.
\<close>

theorem image_error_after_all_retries:
  assumes new: "unprocessed url img"
    and once: "loads_once cfg es img"
    and run: "loader_steps cfg es img = Some img'"
  shows "failures img' \<le> maxRetries cfg + 1 \<and>
         requests img' \<le> maxRetries cfg + 1 \<and>
         delays img' = backoff cfg (min (failures img') (maxRetries cfg)) \<and>
         (errorClass img' \<longleftrightarrow> failures img' = maxRetries cfg + 1) \<and>
         (errorClass img' \<longrightarrow>
            src img' = ErrorImage \<and> \<not> placeholderClass img' \<and> data_src img' = None \<and>
            inflight img' = [] \<and> requests img' = maxRetries cfg + 1 \<and>
            (\<forall>later img''. loader_steps cfg later img' = Some img'' \<longrightarrow>
               requests img'' = requests img' \<and> failures img'' = failures img' \<and>
               inflight img'' = [] \<and> errorClass img'' \<and> src img'' = ErrorImage)) \<and>
         (0 < failures img' \<and> failures img' \<le> maxRetries cfg \<longrightarrow>
            (inflight img' = [Preloading url (failures img')] \<and>
             requests img' = failures img' + 1) \<or>
            (inflight img' = [Delaying url (failures img' - 1)] \<and>
             requests img' = failures img' \<and>
             map_option requests (loader_step cfg (DelayElapsed 0) img')
               = Some (failures img' + 1)) \<or>
            (loadedClass img' \<and> src img' = Url url \<and> requests img' = failures img' + 1))"
proof -
  have inv: "single_chain cfg url img'"
    using unprocessed_single_chain [OF new] once run by (rule single_chain_steps)
  then have d: "delays img' = backoff cfg (min (failures img') (maxRetries cfg))"
    by (simp add: single_chain_def)
  from inv consider (a) "not_started url img'" | (b) "load_in_flight cfg url img'"
    | (c) "timer_pending cfg url img'" | (d) "shown cfg url img'" | (e) "given_up cfg img'"
    by (auto simp: single_chain_def)
  then show ?thesis
  proof cases
    case a
    then show ?thesis using d by (simp add: not_started_def)
  next
    case b
    then show ?thesis using d by (simp add: load_in_flight_def)
  next
    case c
    have "loader_step cfg (DelayElapsed 0) img' = Some (delay_elapsed url (resume 0 img'))"
      using c by (simp add: timer_pending_def)
    then have "map_option requests (loader_step cfg (DelayElapsed 0) img')
               = Some (failures img' + 1)"
      using elapsed_chain(2) [OF inv c] by simp
    then show ?thesis using c d by (simp add: timer_pending_def)
  next
    case d
    then show ?thesis using \<open>delays img' = _\<close> by (simp add: shown_def)
  next
    case e
    have "requests img'' = requests img' \<and> failures img'' = failures img' \<and>
          inflight img'' = [] \<and> errorClass img'' \<and> src img'' = ErrorImage"
      if "loader_steps cfg later img' = Some img''" for later img''
    proof -
      have "data_src img' = None" "inflight img' = []" using e by (simp_all add: given_up_def)
      from settled_steps [OF this that] e show ?thesis by (simp add: given_up_def)
    qed
    then show ?thesis using e d by (simp add: given_up_def)
  qed
qed

text \<open>With the configured three retries, on an image as \<^verbatim>\<open>observeImages\<close> leaves it:
  four failed loads end in the error state, after the waits 1000, 2000 and 4000, and
  calling \<^verbatim>\<open>processImage\<close>, \<^verbatim>\<open>observeImages\<close> and \<^verbatim>\<open>cleanup\<close> afterwards starts no
  fifth load.\<close>

theorem image_error_after_all_retries_witness:
  "unprocessed ''plan.jpg'' (lazy_image ''plan.jpg'') \<and>
   loads_once LAZY_CONFIG four_failed_loads (lazy_image ''plan.jpg'') \<and>
   map_option (\<lambda>i. (failures i, requests i, delays i, errorClass i, src i))
     (loader_steps LAZY_CONFIG four_failed_loads (lazy_image ''plan.jpg''))
     = Some (4, 4, [1000, 2000, 4000], True, ErrorImage) \<and>
   map_option (\<lambda>i. (failures i, requests i, errorClass i, src i))
     (loader_steps LAZY_CONFIG
        (four_failed_loads @ [ProcessImage, ObserveImages, Cleanup, ProcessImage])
        (lazy_image ''plan.jpg''))
     = Some (4, 4, True, ErrorImage)"
proof -
  let ?img = "lazy_image ''plan.jpg''"
  have new: "unprocessed ''plan.jpg'' ?img"
    by (simp add: unprocessed_def lazy_image_def)
  have once: "loads_once LAZY_CONFIG four_failed_loads ?img"
    by (simp add: lazy_defs)
  obtain img' where run: "loader_steps LAZY_CONFIG four_failed_loads ?img = Some img'"
    by (simp add: lazy_defs)
  have v: "failures img' = 4" "delays img' = [1000, 2000, 4000]"
    using run by (auto simp add: lazy_defs)
  obtain img'' where later:
    "loader_steps LAZY_CONFIG [ProcessImage, ObserveImages, Cleanup, ProcessImage] img'
       = Some img''"
    by simp
  note t = image_error_after_all_retries [OF new once run]
  from t v have e: "errorClass img'" by (simp add: LAZY_CONFIG_def)
  with t have r: "src img' = ErrorImage" "requests img' = 4"
    "\<forall>later img''. loader_steps LAZY_CONFIG later img' = Some img'' \<longrightarrow>
       requests img'' = requests img' \<and> failures img'' = failures img' \<and>
       inflight img'' = [] \<and> errorClass img'' \<and> src img'' = ErrorImage"
    by (simp_all add: LAZY_CONFIG_def)
  from r(3) later have "requests img'' = requests img' \<and> failures img'' = failures img' \<and>
       inflight img'' = [] \<and> errorClass img'' \<and> src img'' = ErrorImage"
    by blast
  then have l: "requests img'' = 4" "errorClass img''" "src img'' = ErrorImage"
    and f: "failures img'' = 4"
    using r(2) v(1) by simp_all
  have app: "loader_steps LAZY_CONFIG
      (four_failed_loads @ [ProcessImage, ObserveImages, Cleanup, ProcessImage]) ?img
      = Some img''"
    using run later by (simp add: loader_steps_append del: loader_steps.simps)
  show ?thesis
    using new once v e r(1,2) f l by (simp add: run app del: loader_steps.simps)
qed

text \<open>
  Claim C4 as stated puts the error state after \<open>N\<close> failures. With \<open>N = 3\<close>: after
  three failed loads the element is not in the error state, it still shows the
  placeholder, and the timer of the third retry is pending; when the timer fires a
  fourth load is started, and when that load succeeds the image is shown.
\<close>

theorem three_failures_are_not_final:
  "maxRetries LAZY_CONFIG = 3 \<and>
   map_option (\<lambda>i. (failures i, requests i, errorClass i, src i, inflight i))
     (loader_steps LAZY_CONFIG three_failed_loads (lazy_image ''plan.jpg''))
     = Some (3, 3, False, FallbackImage, [Delaying ''plan.jpg'' 2]) \<and>
   map_option (\<lambda>i. (failures i, requests i, errorClass i, loadedClass i, src i))
     (loader_steps LAZY_CONFIG (three_failed_loads @ [DelayElapsed 0, PreloadResolved 0])
        (lazy_image ''plan.jpg''))
     = Some (3, 4, False, True, Url ''plan.jpg'')"
  by (simp add: lazy_defs)

text \<open>
  Outside the runs that load the image once the bound fails. \<^verbatim>\<open>finally\<close> takes the
  image out of \<^verbatim>\<open>loadingImages\<close> as soon as the first retry has started, so a second
  \<^verbatim>\<open>processImage\<close> during the retry starts a second chain of calls on the same retry
  count. With three retries: six loads fail before the element is in the error state,
  and the timer that is still pending then starts a seventh load, which replaces the
  error image when it succeeds.
\<close>

lemma second_chain_exceeds_the_bound:
  "loads_once LAZY_CONFIG processed_twice (lazy_image ''plan.jpg'') = False \<and>
   map_option (\<lambda>i. (failures i, requests i, errorClass i, src i, inflight i))
     (loader_steps LAZY_CONFIG processed_twice (lazy_image ''plan.jpg''))
     = Some (6, 6, True, ErrorImage, [Delaying ''plan.jpg'' 2]) \<and>
   map_option (\<lambda>i. (requests i, errorClass i, loadedClass i, src i))
     (loader_steps LAZY_CONFIG (processed_twice @ [DelayElapsed 0, PreloadResolved 0])
        (lazy_image ''plan.jpg''))
     = Some (7, True, True, Url ''plan.jpg'')"
  by (simp add: lazy_defs)

section \<open>Results: mobile navigation menu\<close>

lemma focus_keeps [simp]:
  "isMenuOpen (focus el n) = isMenuOpen n"
  "lastFocusedElement (focus el n) = lastFocusedElement n"
  "accepts_focus (focus el n) = accepts_focus n"
  "focusableElements (focus el n) = focusableElements n"
  "menuFocusable (focus el n) = menuFocusable n"
  "focusTimers (focus el n) = focusTimers n"
  by (simp_all add: focus_def)

lemma activeElement_focus: "accepts_focus n el \<Longrightarrow> activeElement (focus el n) = Some el"
  by (simp add: focus_def)

lemma trapFocus_keeps [simp]:
  "isMenuOpen (trapFocus s els n) = isMenuOpen n"
  "lastFocusedElement (trapFocus s els n) = lastFocusedElement n"
  "accepts_focus (trapFocus s els n) = accepts_focus n"
  "focusableElements (trapFocus s els n) = focusableElements n"
  by (simp_all add: trapFocus_def Let_def split: list.splits)

lemma while_open_keeps [simp]:
  "isMenuOpen (while_open e n) = isMenuOpen n"
  "lastFocusedElement (while_open e n) = lastFocusedElement n"
  "accepts_focus (while_open e n) = accepts_focus n"
  "focusableElements (while_open e n) = focusableElements n"
  by (cases e; simp add: focusTimer_def split: list.splits)+

lemma menu_events_keeps [simp]:
  "isMenuOpen (menu_events es n) = isMenuOpen n"
  "lastFocusedElement (menu_events es n) = lastFocusedElement n"
  "accepts_focus (menu_events es n) = accepts_focus n"
  "focusableElements (menu_events es n) = focusableElements n"
  by (induction es arbitrary: n; simp)+

lemma closeMenu_restores:
  "isMenuOpen n \<Longrightarrow> lastFocusedElement n = Some e \<Longrightarrow> accepts_focus n e \<Longrightarrow>
   activeElement (closeMenu n) = Some e \<and> \<not> isMenuOpen (closeMenu n) \<and>
   focusableElements (closeMenu n) = []"
  by (simp add: closeMenu_def Let_def focus_def)

lemma openMenu_records:
  "\<not> isMenuOpen n \<Longrightarrow>
   isMenuOpen (openMenu n) \<and> lastFocusedElement (openMenu n) = activeElement n \<and>
   accepts_focus (openMenu n) = accepts_focus n \<and>
   focusableElements (openMenu n) = menuFocusable n \<and>
   activeElement (openMenu n) = activeElement n \<and>
   focusTimers (openMenu n) = (if menuFocusable n = [] then focusTimers n else focusTimers n + 1)"
  by (simp add: openMenu_def Let_def)

lemma focusTimer_moves:
  "focusableElements n = first # rest \<Longrightarrow> accepts_focus n first \<Longrightarrow>
   map_sum id activeElement (focusTimer n) = Inr (Some first)"
  by (simp add: focusTimer_def focus_def)

text \<open>
  Claim C10, as the code has it. Let the menu be closed and let element \<open>e\<close> have the
  focus and accept it again later. \<^verbatim>\<open>openMenu\<close> records \<open>e\<close> and leaves the focus on
  \<open>e\<close>: it does not move the focus itself. When the menu has no focusable element it sets
  no timer. When it has one, \<^verbatim>\<open>openMenu\<close> sets one timer, and the callback of that
  timer, whenever it runs while the menu is still open (after any Tab keys, focus moves
  or other timers), moves the focus to the first focusable element of the menu, provided
  that element accepts the focus. Whatever happens while the menu is open, \<^verbatim>\<open>closeMenu\<close>
  gives the focus back to \<open>e\<close>; a timer that fires after that finds no element and
  throws, so it neither moves the focus into the menu nor takes it away from \<open>e\<close>.
\<close>

theorem menu_focus_round_trip:
  assumes closed: "\<not> isMenuOpen n"
    and focused: "activeElement n = Some e" "accepts_focus n e"
  shows "lastFocusedElement (openMenu n) = Some e \<and>
         activeElement (openMenu n) = Some e \<and>
         (menuFocusable n = [] \<longrightarrow> focusTimers (openMenu n) = focusTimers n) \<and>
         (\<forall>first rest. menuFocusable n = first # rest \<longrightarrow>
            focusTimers (openMenu n) = focusTimers n + 1 \<and>
            (accepts_focus n first \<longrightarrow>
               map_sum id activeElement (focusTimer (menu_events es (openMenu n)))
                 = Inr (Some first))) \<and>
         activeElement (closeMenu (menu_events es (openMenu n))) = Some e \<and>
         \<not> isMenuOpen (closeMenu (menu_events es (openMenu n))) \<and>
         focusTimer (closeMenu (menu_events es (openMenu n))) = Inl TypeError"
proof -
  note opened = openMenu_records [OF closed]
  let ?m = "menu_events es (openMenu n)"
  have recorded: "lastFocusedElement (openMenu n) = Some e" "activeElement (openMenu n) = Some e"
    using opened focused by simp_all
  have none: "focusTimers (openMenu n) = focusTimers n" if "menuFocusable n = []"
    using that opened by simp
  have timer: "focusTimers (openMenu n) = focusTimers n + 1"
    if "menuFocusable n = first # rest" for first rest
    using that opened by simp
  have into: "map_sum id activeElement (focusTimer ?m) = Inr (Some first)"
    if "menuFocusable n = first # rest" "accepts_focus n first" for first rest
  proof (rule focusTimer_moves)
    show "focusableElements ?m = first # rest" using that opened by simp
    show "accepts_focus ?m first" using that opened by simp
  qed
  have "isMenuOpen ?m" "lastFocusedElement ?m = Some e" "accepts_focus ?m e"
    using opened focused by simp_all
  from closeMenu_restores [OF this]
  have restored: "activeElement (closeMenu ?m) = Some e" "\<not> isMenuOpen (closeMenu ?m)"
    "focusTimer (closeMenu ?m) = Inl TypeError"
    by (simp_all add: focusTimer_def)
  from recorded none timer into restored show ?thesis by blast
qed

text \<open>On the page: the toggle has the focus; the menu opens, the timer moves the focus to
  the first link, Shift+Tab and Tab are trapped, and closing returns the focus to the
  toggle.\<close>

theorem menu_focus_round_trip_witness:
  "\<not> isMenuOpen page_nav \<and> activeElement page_nav = Some 1 \<and> accepts_focus page_nav 1 \<and>
   lastFocusedElement (openMenu page_nav) = Some 1 \<and>
   focusTimers (openMenu page_nav) = 1 \<and>
   map_sum id activeElement
     (focusTimer (menu_events [TabKey False, FocusMoved 12] (openMenu page_nav)))
     = Inr (Some 10) \<and>
   activeElement
     (menu_events [TabKey False, FocusMoved 12, FocusTimerFires, TabKey True]
        (openMenu page_nav))
     = Some 12 \<and>
   activeElement
     (closeMenu (menu_events [TabKey False, FocusMoved 12] (openMenu page_nav)))
     = Some 1"
proof -
  have h: "\<not> isMenuOpen page_nav" "activeElement page_nav = Some 1" "accepts_focus page_nav 1"
    by (simp_all add: page_nav_def closed_menu_def)
  have m: "menuFocusable page_nav = 10 # [11, 12]" "accepts_focus page_nav 10"
    "focusTimers page_nav = 0"
    by (simp_all add: page_nav_def closed_menu_def)
  have v: "activeElement
     (menu_events [TabKey False, FocusMoved 12, FocusTimerFires, TabKey True]
        (openMenu page_nav)) = Some 12"
    by (simp add: page_nav_def closed_menu_def openMenu_def focusTimer_def focus_def
          trapFocus_def Let_def)
  from menu_focus_round_trip [OF h, of "[TabKey False, FocusMoved 12]"] m
  have "lastFocusedElement (openMenu page_nav) = Some 1"
    "focusTimers (openMenu page_nav) = 1"
    "map_sum id activeElement
       (focusTimer (menu_events [TabKey False, FocusMoved 12] (openMenu page_nav)))
       = Inr (Some 10)"
    "activeElement (closeMenu (menu_events [TabKey False, FocusMoved 12] (openMenu page_nav)))
       = Some 1"
    by (simp_all del: menu_events.simps)
  with h v show ?thesis by (simp del: menu_events.simps)
qed

text \<open>
  Claim C10 as stated has \<^verbatim>\<open>openMenu\<close> move the focus into the menu. On the page,
  when \<^verbatim>\<open>openMenu\<close> returns the focus is still on the toggle, element 1, which is not
  in the menu; closed at once (within the 300 ms of the timer), the menu never
  held the focus, and the timer then throws. On a page whose menu has no focusable
  element no timer is set at all, and the focus stays on the toggle while the menu is
  open.
\<close>

theorem openMenu_leaves_focus_outside:
  "activeElement (openMenu page_nav) = Some 1 \<and>
   menuFocusable page_nav = [10, 11, 12] \<and>
   isMenuOpen (openMenu page_nav) \<and>
   activeElement (closeMenu (openMenu page_nav)) = Some 1 \<and>
   focusTimer (closeMenu (openMenu page_nav)) = Inl TypeError \<and>
   isMenuOpen (openMenu empty_menu_nav) \<and>
   focusTimers (openMenu empty_menu_nav) = 0 \<and>
   activeElement (menu_events [FocusTimerFires, TabKey False] (openMenu empty_menu_nav))
     = Some 1"
  by (simp add: page_nav_def empty_menu_nav_def closed_menu_def openMenu_def closeMenu_def
        focusTimer_def focus_def trapFocus_def Let_def)

end
